theory Spec2Isabelle
  imports Main "HOL-Library.Word"
begin

section \<open>Data model of the syncer package\<close>

text \<open>
  Go's \<^verbatim>\<open>error\<close> values. \<open>Canceled\<close> and \<open>DeadlineExceeded\<close> are the two errors a
  standard \<^verbatim>\<open>context.Context\<close> reports through \<^verbatim>\<open>Err()\<close>; \<open>Failure\<close> is any
  other error with its message; \<open>Errorf msg e\<close> is \<^verbatim>\<open>fmt.Errorf(msg + ": %w", e)\<close>.
\<close>

datatype error = Canceled | DeadlineExceeded | Failure string | Errorf string error

text \<open>
  A \<^verbatim>\<open>time.Time\<close> read from file or listing metadata is an instant on the time line,
  counted from the zero \<^verbatim>\<open>time.Time{}\<close>; \<^verbatim>\<open>t.After(u)\<close> compares the instants.
\<close>

type_synonym time = int

definition After :: "time \<Rightarrow> time \<Rightarrow> bool" where
  "After t u = (u < t)"

text \<open>\<^verbatim>\<open>type ObjectInfo struct { Key string; Size int64; ModTime time.Time }\<close> (s3.go)\<close>

record ObjectInfo =
  Key :: string
  Size :: "64 word"
  ModTime :: time

text \<open>A snapshot is the Go \<^verbatim>\<open>map[string]ObjectInfo\<close> an enumerator returns.\<close>

type_synonym snapshot = "string \<rightharpoonup> ObjectInfo"

text \<open>The filter is a \<^verbatim>\<open>func(string) bool\<close> that may be nil.\<close>

type_synonym path_filter = "(string \<Rightarrow> bool) option"

text \<open>\<^verbatim>\<open>filter != nil && !filter(relPath)\<close>, the test both enumerators make.\<close>

definition filtered_out :: "path_filter \<Rightarrow> string \<Rightarrow> bool" where
  "filtered_out f relPath = (case f of None \<Rightarrow> False | Some g \<Rightarrow> \<not> g relPath)"

subsection \<open>The functions of package strings that the code calls\<close>

definition HasPrefix :: "string \<Rightarrow> string \<Rightarrow> bool" where
  "HasPrefix s pfx = (take (length pfx) s = pfx)"

definition TrimPrefix :: "string \<Rightarrow> string \<Rightarrow> string" where
  "TrimPrefix s pfx = (if HasPrefix s pfx then drop (length pfx) s else s)"

definition HasSuffix :: "string \<Rightarrow> string \<Rightarrow> bool" where
  "HasSuffix s suffix =
     (length suffix \<le> length s \<and> drop (length s - length suffix) s = suffix)"

section \<open>The remote enumerator (s3.go)\<close>

text \<open>
  An entry of \<^verbatim>\<open>page.Contents\<close>: the SDK's \<^verbatim>\<open>types.Object\<close> holds pointers, read
  with \<^verbatim>\<open>aws.ToString\<close>, \<^verbatim>\<open>aws.ToInt64\<close> and \<^verbatim>\<open>aws.ToTime\<close>, which give the zero
  value for a nil pointer.
\<close>

record s3_object =
  obj_Key :: "string option"
  obj_Size :: "64 word option"
  obj_LastModified :: "time option"

definition ToString :: "string option \<Rightarrow> string" where
  "ToString p = (case p of None \<Rightarrow> [] | Some s \<Rightarrow> s)"

definition ToInt64 :: "64 word option \<Rightarrow> 64 word" where
  "ToInt64 p = (case p of None \<Rightarrow> 0 | Some n \<Rightarrow> n)"

definition ToTime :: "time option \<Rightarrow> time" where
  "ToTime p = (case p of None \<Rightarrow> 0 | Some t \<Rightarrow> t)"

text \<open>
  What the paginator delivers, call after call of \<^verbatim>\<open>NextPage\<close>: an error, a page
  after which \<^verbatim>\<open>HasMorePages\<close> is false, or a page followed by more. The store
  is taken to deliver finitely many pages.
\<close>

datatype listing =
  PageError error
  | LastPage "s3_object list"
  | MorePages "s3_object list" listing

text \<open>Lines 36 to 46 of s3.go: the relative path of a key; \<open>None\<close> is the \<^verbatim>\<open>continue\<close> of line 42.\<close>

definition relPathOf :: "string \<Rightarrow> string \<Rightarrow> string option" where
  "relPathOf pfx key =
     (if pfx \<noteq> [] then
        (if \<not> HasPrefix key pfx then None
         else Some (TrimPrefix (TrimPrefix key pfx) ''/''))
      else Some key)"

text \<open>The body of the loop over \<^verbatim>\<open>page.Contents\<close>, lines 35 to 62.\<close>

definition addObject :: "string \<Rightarrow> path_filter \<Rightarrow> snapshot \<Rightarrow> s3_object \<Rightarrow> snapshot" where
  "addObject pfx f objs obj =
     (let key = ToString (obj_Key obj) in
      case relPathOf pfx key of
        None \<Rightarrow> objs
      | Some relPath \<Rightarrow>
          if relPath = [] then objs
          else if filtered_out f relPath then objs
          else objs(relPath \<mapsto>
                 \<lparr>Key = key, Size = ToInt64 (obj_Size obj),
                  ModTime = ToTime (obj_LastModified obj)\<rparr>))"

fun listPages :: "listing \<Rightarrow> string \<Rightarrow> path_filter \<Rightarrow> snapshot \<Rightarrow> error + snapshot" where
  "listPages (PageError e) pfx f objs = Inl (Errorf ''failed to list objects'' e)"
| "listPages (LastPage contents) pfx f objs = Inr (foldl (addObject pfx f) objs contents)"
| "listPages (MorePages contents rest) pfx f objs =
     listPages rest pfx f (foldl (addObject pfx f) objs contents)"

definition ListS3Objects :: "listing \<Rightarrow> string \<Rightarrow> path_filter \<Rightarrow> error + snapshot" where
  "ListS3Objects pages pfx f = listPages pages pfx f Map.empty"

section \<open>The local enumerator (local.go)\<close>

text \<open>
  One call that \<^verbatim>\<open>filepath.WalkDir\<close> makes to the callback: the path, the error it
  passes (a failed \<^verbatim>\<open>Lstat\<close> or \<^verbatim>\<open>ReadDir\<close>), whether the entry is a directory, and
  what \<^verbatim>\<open>filepath.Rel(root, path)\<close> and \<^verbatim>\<open>d.Info()\<close> answer for it (size and
  modification time). The last two belong to the standard library and the file
  system, so they come with the call.
\<close>

record walk_call =
  w_path :: string
  w_err :: "error option"
  w_IsDir :: bool
  w_Rel :: "error + string"
  w_Info :: "error + (64 word \<times> time)"

text \<open>The callback of lines 14 to 43; \<open>Inl\<close> is a non-nil error returned to WalkDir.\<close>

definition walkFn :: "path_filter \<Rightarrow> snapshot \<Rightarrow> walk_call \<Rightarrow> error + snapshot" where
  "walkFn f objects c =
     (case w_err c of
        Some e \<Rightarrow> Inl e
      | None \<Rightarrow>
          if w_IsDir c then Inr objects
          else (case w_Rel c of
                  Inl e \<Rightarrow> Inl (Errorf ''failed to get relative path'' e)
                | Inr relPath \<Rightarrow>
                    if filtered_out f relPath then Inr objects
                    else (case w_Info c of
                            Inl e \<Rightarrow> Inl (Errorf ''failed to get file info'' e)
                          | Inr (sz, mt) \<Rightarrow>
                              Inr (objects(relPath \<mapsto>
                                     \<lparr>Key = relPath, Size = sz, ModTime = mt\<rparr>)))))"

text \<open>WalkDir stops at the first call whose callback returns an error and returns it.\<close>

fun WalkDir :: "walk_call list \<Rightarrow> path_filter \<Rightarrow> snapshot \<Rightarrow> error + snapshot" where
  "WalkDir [] f objects = Inr objects"
| "WalkDir (c # cs) f objects =
     (case walkFn f objects c of
        Inl e \<Rightarrow> Inl e
      | Inr objects' \<Rightarrow> WalkDir cs f objects')"

definition WalkLocal :: "walk_call list \<Rightarrow> path_filter \<Rightarrow> error + snapshot" where
  "WalkLocal calls f =
     (case WalkDir calls f Map.empty of
        Inl e \<Rightarrow> Inl (Errorf ''failed to walk local directory'' e)
      | Inr objects \<Rightarrow> Inr objects)"

section \<open>The orchestrator (syncer.go)\<close>

text \<open>
  The part of \<^verbatim>\<open>S3Client\<close> that enumeration uses: the pages that a listing of a
  bucket under a prefix delivers.
\<close>

type_synonym S3Client = "string \<Rightarrow> string \<Rightarrow> listing"

text \<open>The local file system, as far as enumeration reads it: the calls WalkDir makes from a root.\<close>

type_synonym local_fs = "string \<Rightarrow> walk_call list"

record Syncer =
  client :: S3Client
  deleteDestination :: bool
  concurrency :: int
  filter' :: path_filter

datatype Option =
  WithFilter path_filter
  | WithDelete bool
  | WithConcurrency int
  | WithClient S3Client

fun applyOption :: "Syncer \<Rightarrow> Option \<Rightarrow> Syncer" where
  "applyOption s (WithFilter f) = s\<lparr>filter' := f\<rparr>"
| "applyOption s (WithDelete d) = s\<lparr>deleteDestination := d\<rparr>"
| "applyOption s (WithConcurrency n) = s\<lparr>concurrency := n\<rparr>"
| "applyOption s (WithClient c) = s\<lparr>client := c\<rparr>"

text \<open>
  \<^verbatim>\<open>New\<close>: the first argument is what \<^verbatim>\<open>awsconfig.LoadDefaultConfig\<close> answers, an
  error or the client built from the loaded configuration.
\<close>

definition New :: "error + S3Client \<Rightarrow> Option list \<Rightarrow> error + Syncer" where
  "New sdkConfig opts =
     (case sdkConfig of
        Inl e \<Rightarrow> Inl (Errorf ''failed to load default aws config'' e)
      | Inr c \<Rightarrow>
          Inr (foldl applyOption
                 \<lparr>client = c, deleteDestination = False, concurrency = 16, filter' = None\<rparr>
                 opts))"

text \<open>
  \<^verbatim>\<open>config.Load\<close>, lines 53 to 59: the argument is what \<^verbatim>\<open>Sscanf\<close> read from a
  non-empty \<^verbatim>\<open>SYNC_CONCURRENCY\<close> (\<open>None\<close> when the variable is empty or is no number).
\<close>

definition Load_Concurrency :: "int option \<Rightarrow> int" where
  "Load_Concurrency scanned =
     (case scanned of
        None \<Rightarrow> 16
      | Some c \<Rightarrow> if c > 0 then c else 16)"

definition parseS3URI :: "string \<Rightarrow> string \<times> string" where
  "parseS3URI uri =
     (let trimmed = TrimPrefix uri ''s3://'';
          bucket = takeWhile (\<lambda>c. c \<noteq> CHR ''/'') trimmed;
          rest = dropWhile (\<lambda>c. c \<noteq> CHR ''/'') trimmed
      in (bucket, case rest of [] \<Rightarrow> [] | _ # pfx \<Rightarrow> pfx))"

text \<open>
  The two callbacks that a direction hands to \<^verbatim>\<open>executeSync\<close>, named by what they
  do and the values they close over; what running one does to files and objects
  is the environment's answer, given when the job returns.
\<close>

datatype executor =
  Download string string string
  | RemoveFile string
  | Upload string string string
  | DeleteObject string string

text \<open>\<^verbatim>\<open>type job struct { path string; fn func(context.Context, string) error }\<close>\<close>

record job =
  path :: string
  fn :: executor

text \<open>The arguments of \<^verbatim>\<open>executeSync\<close>.\<close>

record sync_args =
  srcObjs :: snapshot
  dstObjs :: snapshot
  copyFunc :: executor
  deleteFunc :: executor

text \<open>Enumeration I/O, in the order it is performed.\<close>

datatype io_action = ListObjects string string | Walk string

text \<open>
  Where a direction function ends before the transfer: it has returned an error, or it
  calls \<^verbatim>\<open>executeSync\<close> with these arguments and returns what that returns.
\<close>

datatype sync_next = ReturnError error | ExecuteSync sync_args

definition syncS3ToLocal :: "Syncer \<Rightarrow> local_fs \<Rightarrow> string \<Rightarrow> string \<Rightarrow> io_action list \<times> sync_next" where
  "syncS3ToLocal s fs src dst =
     (let (bucket, pfx) = parseS3URI src in
      case ListS3Objects (client s bucket pfx) pfx (filter' s) of
        Inl e \<Rightarrow> ([ListObjects bucket pfx], ReturnError e)
      | Inr srcO \<Rightarrow>
          (case WalkLocal (fs dst) (filter' s) of
             Inl e \<Rightarrow> ([ListObjects bucket pfx, Walk dst], ReturnError e)
           | Inr dstO \<Rightarrow>
               ([ListObjects bucket pfx, Walk dst],
                ExecuteSync \<lparr>srcObjs = srcO, dstObjs = dstO,
                             copyFunc = Download bucket pfx dst,
                             deleteFunc = RemoveFile dst\<rparr>)))"

definition syncLocalToS3 :: "Syncer \<Rightarrow> local_fs \<Rightarrow> string \<Rightarrow> string \<Rightarrow> io_action list \<times> sync_next" where
  "syncLocalToS3 s fs src dst =
     (let (bucket, pfx) = parseS3URI dst in
      case WalkLocal (fs src) (filter' s) of
        Inl e \<Rightarrow> ([Walk src], ReturnError e)
      | Inr srcO \<Rightarrow>
          (case ListS3Objects (client s bucket pfx) pfx (filter' s) of
             Inl e \<Rightarrow> ([Walk src, ListObjects bucket pfx], ReturnError e)
           | Inr dstO \<Rightarrow>
               ([Walk src, ListObjects bucket pfx],
                ExecuteSync \<lparr>srcObjs = srcO, dstObjs = dstO,
                             copyFunc = Upload src bucket pfx,
                             deleteFunc = DeleteObject bucket pfx\<rparr>)))"

definition Sync :: "Syncer \<Rightarrow> local_fs \<Rightarrow> string \<Rightarrow> string \<Rightarrow> io_action list \<times> sync_next" where
  "Sync s fs src dst =
     (let srcIsS3 = HasPrefix src ''s3://'';
          dstIsS3 = HasPrefix dst ''s3://''
      in if srcIsS3 \<and> \<not> dstIsS3 then syncS3ToLocal s fs src dst
         else if \<not> srcIsS3 \<and> dstIsS3 then syncLocalToS3 s fs src dst
         else ([], ReturnError (Failure (''unsupported sync mode: '' @ src @ '' -> '' @ dst
                                           @ '' (only S3<->Local supported)''))))"

section \<open>executeSync: the producer and the worker pool\<close>

text \<open>Lines 248 to 258: the copy decision for a source entry and the destination's lookup.\<close>

definition shouldCopy :: "ObjectInfo \<Rightarrow> ObjectInfo option \<Rightarrow> bool" where
  "shouldCopy srcInfo d =
     (case d of
        None \<Rightarrow> True
      | Some dstInfo \<Rightarrow>
          if Size srcInfo \<noteq> Size dstInfo then True
          else After (ModTime srcInfo) (ModTime dstInfo))"

text \<open>
  A worker goroutine (lines 209 to 229) is at its \<^verbatim>\<open>select\<close>, inside \<^verbatim>\<open>j.exec\<close>, or
  has returned.
\<close>

datatype worker = Selecting | Executing job | Exited

text \<open>
  The goroutine that runs \<^verbatim>\<open>executeSync\<close> itself: at the head of the copy loop or of
  the delete loop with the keys the \<^verbatim>\<open>range\<close> has still to deliver, blocked in the
  \<^verbatim>\<open>select\<close> of \<^verbatim>\<open>submit\<close> with a job in hand, in \<^verbatim>\<open>wg.Wait()\<close> after
  \<^verbatim>\<open>close(jobs)\<close>, or returned with its result.
\<close>

datatype producer =
  CopyLoop "string list"
  | CopySubmit job "string list"
  | DeleteLoop "string list"
  | DeleteSubmit job "string list"
  | Wait
  | Returned "error option"

text \<open>
  The shared state: \<open>ctx_err\<close> is \<^verbatim>\<open>ctx.Err()\<close> of the derived context, \<open>jobs\<close> and
  \<open>errChan\<close> are the contents of the two buffered channels. The last three fields
  record history and are read by no step: the jobs sent on the channel, the jobs whose
  \<^verbatim>\<open>exec\<close> was entered, and the jobs whose \<^verbatim>\<open>exec\<close> returned an error, each in order.
\<close>

record pool =
  ctx_err :: "error option"
  jobs :: "job list"
  jobs_closed :: bool
  errChan :: "error list"
  workers :: "worker list"
  producer :: producer
  submitted :: "job list"
  started :: "job list"
  failures :: "(job \<times> error) list"

text \<open>
  What can happen next. A \<^verbatim>\<open>select\<close> with several ready cases takes any of them, so
  each case is an event of its own.
\<close>

datatype event =
  CtxDone error
  | Produce
  | SubmitSend
  | SubmitDone
  | Recv nat
  | Done nat
  | Return nat "error option"

text \<open>
  What stays fixed during one call: the receiver, the arguments, and the order in which
  the \<^verbatim>\<open>range\<close> over \<^verbatim>\<open>dstObjs\<close> delivers its keys.
\<close>

record call =
  syncer :: Syncer
  args :: sync_args
  dstRange :: "string list"

text \<open>A \<^verbatim>\<open>range\<close> over a map delivers every key once, in an order of the runtime's choice.\<close>

definition range_order :: "snapshot \<Rightarrow> string list \<Rightarrow> bool" where
  "range_order m ks = (distinct ks \<and> (\<forall>k. (k \<in> set ks) = (m k \<noteq> None)))"

definition jobs_cap :: nat where
  "jobs_cap = 1000"

definition errChan_cap :: nat where
  "errChan_cap = 2000"

text \<open>\<^verbatim>\<open>cancel()\<close>: the first cancellation of a context fixes its error.\<close>

definition cancel :: "error option \<Rightarrow> error option" where
  "cancel ce = (case ce of None \<Rightarrow> Some Canceled | Some e \<Rightarrow> Some e)"

text \<open>Lines 287 to 289, up to \<^verbatim>\<open>wg.Wait()\<close>.\<close>

definition closeJobs :: "pool \<Rightarrow> pool" where
  "closeJobs st = st\<lparr>jobs_closed := True, producer := Wait\<rparr>"

text \<open>Line 271, reached when the copy loop ends or breaks.\<close>

definition afterCopy :: "call \<Rightarrow> pool \<Rightarrow> pool" where
  "afterCopy c st =
     (if deleteDestination (syncer c) then st\<lparr>producer := DeleteLoop (dstRange c)\<rparr>
      else closeJobs st)"

text \<open>Lines 291 to 299.\<close>

definition result :: "pool \<Rightarrow> error option" where
  "result st =
     (case ctx_err st of
        Some e \<Rightarrow>
          if e \<noteq> Canceled then Some e
          else (case errChan st of [] \<Rightarrow> None | e' # _ \<Rightarrow> Some e')
      | None \<Rightarrow> (case errChan st of [] \<Rightarrow> None | e' # _ \<Rightarrow> Some e'))"

text \<open>
  A step of the producer that is not a \<^verbatim>\<open>select\<close>: the test of \<^verbatim>\<open>ctx.Err()\<close> at
  the head of a loop and the decision for the next key, the end of a loop, or the return
  once \<^verbatim>\<open>wg.Wait()\<close> is over. A \<^verbatim>\<open>range\<close> delivers a key together with its value, so
  a key that is not in \<^verbatim>\<open>srcObjs\<close> is no step of the copy loop.
\<close>

definition produce :: "call \<Rightarrow> pool \<Rightarrow> pool option" where
  "produce c st =
     (case producer st of
        CopyLoop [] \<Rightarrow> Some (afterCopy c st)
      | CopyLoop (p # ps) \<Rightarrow>
          if ctx_err st \<noteq> None then Some (afterCopy c st)
          else (case srcObjs (args c) p of
                  None \<Rightarrow> None
                | Some srcInfo \<Rightarrow>
                    if shouldCopy srcInfo (dstObjs (args c) p)
                    then Some (st\<lparr>producer :=
                                 CopySubmit \<lparr>path = p, fn = copyFunc (args c)\<rparr> ps\<rparr>)
                    else Some (st\<lparr>producer := CopyLoop ps\<rparr>))
      | DeleteLoop [] \<Rightarrow> Some (closeJobs st)
      | DeleteLoop (p # ps) \<Rightarrow>
          if ctx_err st \<noteq> None then Some (closeJobs st)
          else if srcObjs (args c) p = None
          then Some (st\<lparr>producer :=
                       DeleteSubmit \<lparr>path = p, fn = deleteFunc (args c)\<rparr> ps\<rparr>)
          else Some (st\<lparr>producer := DeleteLoop ps\<rparr>)
      | Wait \<Rightarrow>
          if list_all (\<lambda>w. w = Exited) (workers st)
          then Some (st\<lparr>producer := Returned (result st)\<rparr>)
          else None
      | _ \<Rightarrow> None)"

text \<open>The \<^verbatim>\<open>select\<close> of \<^verbatim>\<open>submit\<close> takes the send: the channel has room.\<close>

definition submitSend :: "pool \<Rightarrow> pool option" where
  "submitSend st =
     (if length (jobs st) < jobs_cap then
        (case producer st of
           CopySubmit j ps \<Rightarrow>
             Some (st\<lparr>jobs := jobs st @ [j], submitted := submitted st @ [j],
                      producer := CopyLoop ps\<rparr>)
         | DeleteSubmit j ps \<Rightarrow>
             Some (st\<lparr>jobs := jobs st @ [j], submitted := submitted st @ [j],
                      producer := DeleteLoop ps\<rparr>)
         | _ \<Rightarrow> None)
      else None)"

text \<open>The \<^verbatim>\<open>select\<close> of \<^verbatim>\<open>submit\<close> takes \<^verbatim>\<open><-ctx.Done()\<close>: submit is false, the loop breaks.\<close>

definition submitDone :: "call \<Rightarrow> pool \<Rightarrow> pool option" where
  "submitDone c st =
     (if ctx_err st \<noteq> None then
        (case producer st of
           CopySubmit j ps \<Rightarrow> Some (afterCopy c st)
         | DeleteSubmit j ps \<Rightarrow> Some (closeJobs st)
         | _ \<Rightarrow> None)
      else None)"

text \<open>
  Worker \<open>i\<close> takes \<^verbatim>\<open>j, ok := <-jobs\<close>: a buffered job, also from a closed channel, or
  \<^verbatim>\<open>!ok\<close> once the channel is closed and empty; an open empty channel blocks.
\<close>

definition recv :: "nat \<Rightarrow> pool \<Rightarrow> pool option" where
  "recv i st =
     (if i < length (workers st) \<and> workers st ! i = Selecting then
        (case jobs st of
           j # js \<Rightarrow>
             Some (st\<lparr>jobs := js, workers := (workers st)[i := Executing j],
                      started := started st @ [j]\<rparr>)
         | [] \<Rightarrow>
             if jobs_closed st then Some (st\<lparr>workers := (workers st)[i := Exited]\<rparr>)
             else None)
      else None)"

text \<open>Worker \<open>i\<close> takes \<^verbatim>\<open><-ctx.Done()\<close> and returns.\<close>

definition workerDone :: "nat \<Rightarrow> pool \<Rightarrow> pool option" where
  "workerDone i st =
     (if i < length (workers st) \<and> workers st ! i = Selecting \<and> ctx_err st \<noteq> None
      then Some (st\<lparr>workers := (workers st)[i := Exited]\<rparr>)
      else None)"

text \<open>
  \<^verbatim>\<open>j.exec(ctx)\<close> returns \<open>r\<close> in worker \<open>i\<close> (lines 219 to 226): on an error the worker
  sends it unless \<^verbatim>\<open>errChan\<close> is full, cancels and returns. The send and the
  cancellation are taken as one step with the return of the job.
\<close>

definition jobReturn :: "nat \<Rightarrow> error option \<Rightarrow> pool \<Rightarrow> pool option" where
  "jobReturn i r st =
     (if i < length (workers st) then
        (case workers st ! i of
           Executing j \<Rightarrow>
             (case r of
                None \<Rightarrow> Some (st\<lparr>workers := (workers st)[i := Selecting]\<rparr>)
              | Some e \<Rightarrow>
                  Some (st\<lparr>errChan := (if length (errChan st) < errChan_cap
                                          then errChan st @ [e] else errChan st),
                           ctx_err := cancel (ctx_err st),
                           workers := (workers st)[i := Exited],
                           failures := failures st @ [(j, e)]\<rparr>))
         | _ \<Rightarrow> None)
      else None)"

text \<open>
  The caller's context ends while the call runs, cancelled or past its deadline; the
  derived context takes its error unless it is done already. What happens to the
  context after \<^verbatim>\<open>executeSync\<close> has returned is no event of the call.
\<close>

definition ctxDone :: "error \<Rightarrow> pool \<Rightarrow> pool option" where
  "ctxDone e st =
     (if e = Canceled \<or> e = DeadlineExceeded then
        (case producer st of
           Returned r \<Rightarrow> None
         | _ \<Rightarrow>
             Some (st\<lparr>ctx_err := (case ctx_err st of None \<Rightarrow> Some e | Some e' \<Rightarrow> Some e')\<rparr>))
      else None)"

fun step :: "call \<Rightarrow> event \<Rightarrow> pool \<Rightarrow> pool option" where
  "step c (CtxDone e) st = ctxDone e st"
| "step c Produce st = produce c st"
| "step c SubmitSend st = submitSend st"
| "step c SubmitDone st = submitDone c st"
| "step c (Recv i) st = recv i st"
| "step c (Done i) st = workerDone i st"
| "step c (Return i r) st = jobReturn i r st"

text \<open>A schedule is the list of events in the order they happen; \<open>None\<close>: it cannot happen.\<close>

fun run :: "call \<Rightarrow> event list \<Rightarrow> pool \<Rightarrow> pool option" where
  "run c [] st = Some st"
| "run c (ev # evs) st =
     (case step c ev st of
        None \<Rightarrow> None
      | Some st' \<Rightarrow> run c evs st')"

text \<open>
  Lines 199 to 230: the channels are empty, \<^verbatim>\<open>s.concurrency\<close> workers are started (none
  when it is not positive), and the copy loop begins with the keys of \<^verbatim>\<open>srcObjs\<close> in
  the order \<open>srcRange\<close>.
\<close>

definition start :: "call \<Rightarrow> string list \<Rightarrow> pool" where
  "start c srcRange =
     \<lparr>ctx_err = None, jobs = [], jobs_closed = False, errChan = [],
      workers = replicate (nat (concurrency (syncer c))) Selecting,
      producer = CopyLoop srcRange,
      submitted = [], started = [], failures = []\<rparr>"

definition executeSync :: "call \<Rightarrow> string list \<Rightarrow> event list \<Rightarrow> pool option" where
  "executeSync c srcRange evs = run c evs (start c srcRange)"

text \<open>The number of executor invocations in flight.\<close>

definition in_flight :: "pool \<Rightarrow> nat" where
  "in_flight st = length (filter (\<lambda>w. w \<noteq> Selecting \<and> w \<noteq> Exited) (workers st))"

section \<open>A whole call of Sync\<close>

text \<open>
  What a call of \<^verbatim>\<open>Sync\<close> has done when it returns: the enumerations performed, the
  jobs whose executor was entered, and the error returned (\<open>None\<close> is nil).
\<close>

record outcome =
  performed :: "io_action list"
  executed :: "job list"
  returned :: "error option"

text \<open>
  \<^verbatim>\<open>Sync\<close> under a schedule: the orders of the two \<^verbatim>\<open>range\<close> loops and the events of
  the transfer. \<open>None\<close>: the schedule is not one of a call that returns.
\<close>

definition Sync_run ::
  "Syncer \<Rightarrow> local_fs \<Rightarrow> string \<Rightarrow> string \<Rightarrow> string list \<Rightarrow> string list \<Rightarrow> event list
     \<Rightarrow> outcome option" where
  "Sync_run s fs src dst srcRange dstR evs =
     (case Sync s fs src dst of
        (io, ReturnError e) \<Rightarrow>
          if evs = [] then Some \<lparr>performed = io, executed = [], returned = Some e\<rparr>
          else None
      | (io, ExecuteSync a) \<Rightarrow>
          (case executeSync \<lparr>syncer = s, args = a, dstRange = dstR\<rparr> srcRange evs of
             None \<Rightarrow> None
           | Some st \<Rightarrow>
               (case producer st of
                  Returned r \<Rightarrow>
                    Some \<lparr>performed = io, executed = started st, returned = r\<rparr>
                | _ \<Rightarrow> None)))"

section \<open>Notions used to state and prove the properties\<close>

text \<open>The error of the page at which a listing fails, if it fails.\<close>

fun listing_error :: "listing \<Rightarrow> error option" where
  "listing_error (PageError e) = Some e"
| "listing_error (LastPage contents) = None"
| "listing_error (MorePages contents rest) = listing_error rest"

text \<open>
  An entry the walk cannot read: WalkDir passes an error for it, or it is a file whose
  relative path cannot be computed, or a file that passes the filter and whose
  \<^verbatim>\<open>Info()\<close> fails.
\<close>

definition unreadable :: "path_filter \<Rightarrow> walk_call \<Rightarrow> bool" where
  "unreadable f c =
     (w_err c \<noteq> None \<or>
      (\<not> w_IsDir c \<and>
       (case w_Rel c of
          Inl _ \<Rightarrow> True
        | Inr rel \<Rightarrow> \<not> filtered_out f rel \<and> isl (w_Info c))))"

text \<open>
  The invariant of the remote snapshot while it is built: no entry under the empty
  path, and every entry stored under the relative path of its own key.
\<close>

definition rel_inv :: "string \<Rightarrow> snapshot \<Rightarrow> bool" where
  "rel_inv pfx objs =
     (objs [] = None \<and>
      (\<forall>r info. objs r = Some info \<longrightarrow> relPathOf pfx (Key info) = Some r))"

subsection \<open>The jobs a call submits\<close>

text \<open>
  The two kinds of job the producer builds (lines 261 and 277), the tests of the two loops
  as predicates on a path, and the jobs that the loops submit over a list of keys when
  nothing cancels them.
\<close>

definition copyJob :: "call \<Rightarrow> string \<Rightarrow> job" where
  "copyJob c p = \<lparr>path = p, fn = copyFunc (args c)\<rparr>"

definition deleteJob :: "call \<Rightarrow> string \<Rightarrow> job" where
  "deleteJob c p = \<lparr>path = p, fn = deleteFunc (args c)\<rparr>"

definition wantsCopy :: "call \<Rightarrow> string \<Rightarrow> bool" where
  "wantsCopy c p =
     (case srcObjs (args c) p of
        None \<Rightarrow> False
      | Some srcInfo \<Rightarrow> shouldCopy srcInfo (dstObjs (args c) p))"

definition wantsDelete :: "call \<Rightarrow> string \<Rightarrow> bool" where
  "wantsDelete c p = (srcObjs (args c) p = None)"

definition copyJobs :: "call \<Rightarrow> string list \<Rightarrow> job list" where
  "copyJobs c ks = map (copyJob c) (filter (wantsCopy c) ks)"

definition deleteJobs :: "call \<Rightarrow> string list \<Rightarrow> job list" where
  "deleteJobs c ks = map (deleteJob c) (filter (wantsDelete c) ks)"

definition deletePhase :: "call \<Rightarrow> job list" where
  "deletePhase c = (if deleteDestination (syncer c) then deleteJobs c (dstRange c) else [])"

definition plan :: "call \<Rightarrow> string list \<Rightarrow> job list" where
  "plan c srcRange = copyJobs c srcRange @ deletePhase c"

text \<open>The jobs the producer has still to submit from where it stands, if nothing cancels.\<close>

fun pending :: "call \<Rightarrow> producer \<Rightarrow> job list" where
  "pending c (CopyLoop ks) = copyJobs c ks @ deletePhase c"
| "pending c (CopySubmit j ks) = j # copyJobs c ks @ deletePhase c"
| "pending c (DeleteLoop ks) = deleteJobs c ks"
| "pending c (DeleteSubmit j ks) = j # deleteJobs c ks"
| "pending c Wait = []"
| "pending c (Returned r) = []"

text \<open>
  The invariant of the producer: what has been submitted is a beginning of the plan, it
  is the plan without the pending jobs as long as no loop has broken, and the job in
  hand carries the callback of its loop.
\<close>

fun exact_at :: "producer \<Rightarrow> bool" where
  "exact_at (CopyLoop ks) = True"
| "exact_at (CopySubmit j ks) = True"
| "exact_at (DeleteSubmit j ks) = True"
| "exact_at _ = False"

fun in_hand_ok :: "call \<Rightarrow> producer \<Rightarrow> bool" where
  "in_hand_ok c (CopySubmit j ks) = (fn j = copyFunc (args c))"
| "in_hand_ok c (DeleteSubmit j ks) = (fn j = deleteFunc (args c))"
| "in_hand_ok c _ = True"

definition plan_inv :: "call \<Rightarrow> string list \<Rightarrow> pool \<Rightarrow> bool" where
  "plan_inv c srcRange st =
     ((\<exists>rest. plan c srcRange = submitted st @ rest) \<and>
      (ctx_err st = None \<or> exact_at (producer st) \<longrightarrow>
         plan c srcRange = submitted st @ pending c (producer st)) \<and>
      in_hand_ok c (producer st))"

fun in_copy_loop :: "producer \<Rightarrow> bool" where
  "in_copy_loop (CopyLoop ks) = True"
| "in_copy_loop (CopySubmit j ks) = True"
| "in_copy_loop _ = False"

text \<open>
  The copy rule in the words of the specification: present in the source and absent
  from the destination, or of another size, or of the same size and modified strictly
  later.
\<close>

definition copy_rule :: "snapshot \<Rightarrow> snapshot \<Rightarrow> string \<Rightarrow> bool" where
  "copy_rule S D p =
     (\<exists>s. S p = Some s \<and>
          (D p = None \<or>
           (\<exists>d. D p = Some d \<and> Size s \<noteq> Size d) \<or>
           (\<exists>d. D p = Some d \<and> Size s = Size d \<and> After (ModTime s) (ModTime d))))"

subsection \<open>Invariants of the pool\<close>

text \<open>
  The error side: the context error is one of the two a context reports, a failure has
  cancelled the context, \<^verbatim>\<open>errChan\<close> holds the errors of the failures in their order up
  to its capacity, and a returned call has returned \<open>result\<close> of the final state.
\<close>

definition err_inv :: "pool \<Rightarrow> bool" where
  "err_inv st =
     ((ctx_err st = None \<or> ctx_err st = Some Canceled \<or> ctx_err st = Some DeadlineExceeded) \<and>
      (failures st \<noteq> [] \<longrightarrow> ctx_err st \<noteq> None) \<and>
      errChan st = take errChan_cap (map snd (failures st)) \<and>
      (\<forall>r. producer st = Returned r \<longrightarrow> r = result st))"

text \<open>
  The queue side: the number of workers, \<^verbatim>\<open>jobs\<close> is closed exactly when the producer
  waits or has returned, every submitted job has been started or is still queued, a
  worker has exited without cancellation only from the closed and empty channel, and
  the call returns only after all workers have.
\<close>

definition queue_inv :: "call \<Rightarrow> pool \<Rightarrow> bool" where
  "queue_inv c st =
     (length (workers st) = nat (concurrency (syncer c)) \<and>
      jobs_closed st = (producer st = Wait \<or> (\<exists>r. producer st = Returned r)) \<and>
      submitted st = started st @ jobs st \<and>
      (ctx_err st = None \<and> Exited \<in> set (workers st) \<longrightarrow> jobs st = [] \<and> jobs_closed st) \<and>
      ((\<exists>r. producer st = Returned r) \<longrightarrow> (\<forall>w \<in> set (workers st). w = Exited)))"

text \<open>One job more may be sent after cancellation: the one whose send is pending.\<close>

fun owed :: "producer \<Rightarrow> nat" where
  "owed (CopySubmit j ks) = 1"
| "owed (DeleteSubmit j ks) = 1"
| "owed _ = 0"

subsection \<open>Progress\<close>

text \<open>
  How far a call is from its return: the rank of the producer's position, the queued
  jobs, and the workers weighed by what they have still to do. Every step chosen in the
  proof of progress lowers it.
\<close>

fun rank :: "call \<Rightarrow> producer \<Rightarrow> nat" where
  "rank c (CopyLoop ks) = 2 * length ks + 2 * length (dstRange c) + 5"
| "rank c (CopySubmit j ks) = 2 * length ks + 2 * length (dstRange c) + 6"
| "rank c (DeleteLoop ks) = 2 * length ks + 3"
| "rank c (DeleteSubmit j ks) = 2 * length ks + 4"
| "rank c Wait = 1"
| "rank c (Returned r) = 0"

fun weight :: "worker \<Rightarrow> nat" where
  "weight Selecting = 1"
| "weight (Executing j) = 2"
| "weight Exited = 0"

definition todo :: "call \<Rightarrow> pool \<Rightarrow> nat" where
  "todo c st =
     3 * rank c (producer st) + 2 * length (jobs st) + sum_list (map weight (workers st))"

text \<open>The keys the copy loop has still to visit are keys of the source map.\<close>

fun copy_keys :: "producer \<Rightarrow> string list" where
  "copy_keys (CopyLoop ks) = ks"
| "copy_keys (CopySubmit j ks) = ks"
| "copy_keys _ = []"

definition keys_inv :: "call \<Rightarrow> pool \<Rightarrow> bool" where
  "keys_inv c st = (\<forall>p \<in> set (copy_keys (producer st)). srcObjs (args c) p \<noteq> None)"

subsection \<open>Inputs of the tests, used to run the model on\<close>

text \<open>
  \<^verbatim>\<open>MockS3Client\<close> of syncer\_test.go answers every listing with one page of fixed
  contents; \<^verbatim>\<open>t.TempDir()\<close> is an empty directory, whose walk visits the root only.
\<close>

definition MockS3Client :: "s3_object list \<Rightarrow> S3Client" where
  "MockS3Client contents bucket pfx = LastPage contents"

definition TempDir :: local_fs where
  "TempDir root =
     [\<lparr>w_path = root, w_err = None, w_IsDir = True, w_Rel = Inr ''.'', w_Info = Inr (0, 0)\<rparr>]"

text \<open>
  An upload of two local files to a bucket that holds one of them, newer and of the same
  size, and a stale object; the download of \<open>key.txt\<close> of \<^verbatim>\<open>TestSync_S3ToLocal\<close>; and
  the upload again, after the first one has been carried out.
\<close>

definition test_args :: sync_args where
  "test_args =
     \<lparr>srcObjs = [''a.txt'' \<mapsto> \<lparr>Key = ''a.txt'', Size = 12, ModTime = 5\<rparr>,
                 ''b.txt'' \<mapsto> \<lparr>Key = ''b.txt'', Size = 9, ModTime = 5\<rparr>],
      dstObjs = [''b.txt'' \<mapsto> \<lparr>Key = ''b.txt'', Size = 9, ModTime = 7\<rparr>,
                 ''stale.txt'' \<mapsto> \<lparr>Key = ''stale.txt'', Size = 3, ModTime = 1\<rparr>],
      copyFunc = Upload ''/data'' ''bucket'' [],
      deleteFunc = DeleteObject ''bucket'' []\<rparr>"

definition test_call :: "bool \<Rightarrow> int \<Rightarrow> call" where
  "test_call del k =
     \<lparr>syncer = \<lparr>client = MockS3Client [], deleteDestination = del, concurrency = k,
                filter' = None\<rparr>,
      args = test_args,
      dstRange = [''b.txt'', ''stale.txt'']\<rparr>"

definition test_syncer :: Syncer where
  "test_syncer =
     \<lparr>client = MockS3Client
                 [\<lparr>obj_Key = Some ''key.txt'', obj_Size = Some 12, obj_LastModified = Some 1\<rparr>],
      deleteDestination = False, concurrency = 1, filter' = None\<rparr>"

definition download_call :: call where
  "download_call =
     \<lparr>syncer = test_syncer,
      args = \<lparr>srcObjs = [''key.txt'' \<mapsto> \<lparr>Key = ''key.txt'', Size = 12, ModTime = 1\<rparr>],
              dstObjs = Map.empty,
              copyFunc = Download ''bucket'' [] ''/tmp/dst'',
              deleteFunc = RemoveFile ''/tmp/dst''\<rparr>,
      dstRange = []\<rparr>"

definition second_call :: call where
  "second_call =
     \<lparr>syncer = syncer (test_call True 1),
      args = test_args\<lparr>dstObjs := [''a.txt'' \<mapsto> \<lparr>Key = ''a.txt'', Size = 12, ModTime = 9\<rparr>,
                                      ''b.txt'' \<mapsto> \<lparr>Key = ''b.txt'', Size = 9, ModTime = 7\<rparr>]\<rparr>,
      dstRange = [''a.txt'', ''b.txt'']\<rparr>"

section \<open>Properties of the enumerators\<close>

lemma foldl_addObject_filtered:
  "filtered_out f p \<Longrightarrow> objs p = None \<Longrightarrow> foldl (addObject pfx f) objs contents p = None"
  by (induction contents arbitrary: objs)
     (auto simp: addObject_def Let_def split: option.splits)

lemma listPages_filtered:
  "filtered_out f p \<Longrightarrow> objs p = None \<Longrightarrow> listPages pages pfx f objs = Inr res \<Longrightarrow> res p = None"
proof (induction pages arbitrary: objs)
  case (PageError e)
  then show ?case by simp
next
  case (LastPage contents)
  then show ?case using foldl_addObject_filtered by auto
next
  case (MorePages contents rest)
  have "foldl (addObject pfx f) objs contents p = None"
    using MorePages.prems(1,2) by (rule foldl_addObject_filtered)
  moreover have "listPages rest pfx f (foldl (addObject pfx f) objs contents) = Inr res"
    using MorePages.prems(3) by simp
  ultimately show ?case using MorePages.IH MorePages.prems(1) by blast
qed

lemma walkFn_filtered:
  "filtered_out f p \<Longrightarrow> objs p = None \<Longrightarrow> walkFn f objs c = Inr res \<Longrightarrow> res p = None"
  by (auto simp: walkFn_def split: option.splits if_splits sum.splits prod.splits)

lemma WalkDir_filtered:
  "filtered_out f p \<Longrightarrow> objs p = None \<Longrightarrow> WalkDir calls f objs = Inr res \<Longrightarrow> res p = None"
proof (induction calls arbitrary: objs)
  case Nil
  then show ?case by simp
next
  case (Cons c cs)
  from Cons.prems(3) obtain mid where m: "walkFn f objs c = Inr mid" and r: "WalkDir cs f mid = Inr res"
    by (auto split: sum.splits)
  from walkFn_filtered[OF Cons.prems(1,2) m] have "mid p = None" .
  from Cons.IH[OF Cons.prems(1) this r] show ?case .
qed

text \<open>
  Claim C5. Whatever the listing delivers and whatever the walk visits, a path on which
  the filter answers false is in no snapshot that the remote enumerator or the local
  enumerator returns: both test the same predicate before they insert.
\<close>

theorem filter_excludes_from_both_snapshots:
  "\<not> g p \<Longrightarrow>
     (\<forall>objs. ListS3Objects pages pfx (Some g) = Inr objs \<longrightarrow> objs p = None) \<and>
     (\<forall>objs. WalkLocal calls (Some g) = Inr objs \<longrightarrow> objs p = None)"
proof -
  assume "\<not> g p"
  then have fo: "filtered_out (Some g) p" by (simp add: filtered_out_def)
  have a: "\<forall>objs. ListS3Objects pages pfx (Some g) = Inr objs \<longrightarrow> objs p = None"
    using listPages_filtered[OF fo, of Map.empty] by (simp add: ListS3Objects_def)
  have b: "\<forall>objs. WalkLocal calls (Some g) = Inr objs \<longrightarrow> objs p = None"
    using WalkDir_filtered[OF fo, of Map.empty] by (auto simp: WalkLocal_def split: sum.splits)
  from a b show ?thesis by blast
qed

theorem filter_excludes_witness:
  "\<not> (\<lambda>p. \<not> HasSuffix p ''.tmp'') ''ignore1.tmp'' \<and>
   (\<exists>objs. ListS3Objects
              (LastPage [\<lparr>obj_Key = Some ''keep1.txt'', obj_Size = Some 10, obj_LastModified = Some 1\<rparr>,
                         \<lparr>obj_Key = Some ''ignore1.tmp'', obj_Size = Some 30, obj_LastModified = Some 1\<rparr>])
              [] (Some (\<lambda>p. \<not> HasSuffix p ''.tmp'')) = Inr objs \<and>
           objs ''ignore1.tmp'' = None \<and> objs ''keep1.txt'' \<noteq> None) \<and>
   (\<exists>objs. WalkLocal
              [\<lparr>w_path = ''/data'', w_err = None, w_IsDir = True, w_Rel = Inr ''.'', w_Info = Inr (0, 0)\<rparr>,
               \<lparr>w_path = ''/data/ignore1.tmp'', w_err = None, w_IsDir = False,
                w_Rel = Inr ''ignore1.tmp'', w_Info = Inr (30, 1)\<rparr>,
               \<lparr>w_path = ''/data/keep1.txt'', w_err = None, w_IsDir = False,
                w_Rel = Inr ''keep1.txt'', w_Info = Inr (10, 1)\<rparr>]
              (Some (\<lambda>p. \<not> HasSuffix p ''.tmp'')) = Inr objs \<and>
           objs ''ignore1.tmp'' = None \<and> objs ''keep1.txt'' \<noteq> None)"
  using filter_excludes_from_both_snapshots
          [of "\<lambda>p. \<not> HasSuffix p ''.tmp''" "''ignore1.tmp''"
              "LastPage [\<lparr>obj_Key = Some ''keep1.txt'', obj_Size = Some 10, obj_LastModified = Some 1\<rparr>,
                         \<lparr>obj_Key = Some ''ignore1.tmp'', obj_Size = Some 30, obj_LastModified = Some 1\<rparr>]"
              "[]"
              "[\<lparr>w_path = ''/data'', w_err = None, w_IsDir = True, w_Rel = Inr ''.'', w_Info = Inr (0, 0)\<rparr>,
               \<lparr>w_path = ''/data/ignore1.tmp'', w_err = None, w_IsDir = False,
                w_Rel = Inr ''ignore1.tmp'', w_Info = Inr (30, 1)\<rparr>,
               \<lparr>w_path = ''/data/keep1.txt'', w_err = None, w_IsDir = False,
                w_Rel = Inr ''keep1.txt'', w_Info = Inr (10, 1)\<rparr>]"]
  by (simp add: ListS3Objects_def WalkLocal_def walkFn_def addObject_def relPathOf_def
        filtered_out_def HasSuffix_def ToString_def Let_def)

lemma HasPrefix_append: "HasPrefix (p @ r) p"
  by (simp add: HasPrefix_def)

lemma HasPrefix_decomp: "HasPrefix s p \<Longrightarrow> s = p @ drop (length p) s"
  by (metis HasPrefix_def append_take_drop_id)

lemma relPathOf_cases:
  assumes "pfx \<noteq> []" and "relPathOf pfx key = Some r"
  shows "(key = pfx @ r \<and> \<not> HasPrefix r ''/'') \<or> key = pfx @ ''/'' @ r"
proof -
  from assms have hp: "HasPrefix key pfx"
    and r: "r = TrimPrefix (TrimPrefix key pfx) ''/''"
    by (auto simp: relPathOf_def split: if_splits)
  let ?rest = "drop (length pfx) key"
  from hp have key: "key = pfx @ ?rest" by (rule HasPrefix_decomp)
  from hp r have r': "r = TrimPrefix ?rest ''/''" by (simp add: TrimPrefix_def)
  show ?thesis
  proof (cases "HasPrefix ?rest ''/''")
    case True
    then have "?rest = ''/'' @ r" using r' HasPrefix_decomp[OF True] by (simp add: TrimPrefix_def)
    with key show ?thesis by metis
  next
    case False
    then have "r = ?rest" using r' by (simp add: TrimPrefix_def)
    with key False show ?thesis by metis
  qed
qed

lemma relPathOf_slash: "pfx \<noteq> [] \<Longrightarrow> relPathOf pfx (pfx @ ''/'' @ r) = Some r"
  by (simp add: relPathOf_def HasPrefix_def TrimPrefix_def)

lemma relPathOf_plain: "pfx \<noteq> [] \<Longrightarrow> \<not> HasPrefix r ''/'' \<Longrightarrow> relPathOf pfx (pfx @ r) = Some r"
  by (simp add: relPathOf_def HasPrefix_def TrimPrefix_def)

lemma addObject_rel_inv: "rel_inv pfx objs \<Longrightarrow> rel_inv pfx (addObject pfx f objs obj)"
  by (auto simp: rel_inv_def addObject_def Let_def split: option.splits)

lemma foldl_addObject_rel_inv: "rel_inv pfx objs \<Longrightarrow> rel_inv pfx (foldl (addObject pfx f) objs contents)"
  by (induction contents arbitrary: objs) (simp_all add: addObject_rel_inv)

lemma listPages_rel_inv:
  "rel_inv pfx objs \<Longrightarrow> listPages pages pfx f objs = Inr res \<Longrightarrow> rel_inv pfx res"
proof (induction pages arbitrary: objs)
  case (PageError e)
  then show ?case by simp
next
  case (LastPage contents)
  then show ?case using foldl_addObject_rel_inv by auto
next
  case (MorePages contents rest)
  have "rel_inv pfx (foldl (addObject pfx f) objs contents)"
    using MorePages.prems(1) by (rule foldl_addObject_rel_inv)
  moreover have "listPages rest pfx f (foldl (addObject pfx f) objs contents) = Inr res"
    using MorePages.prems(2) by simp
  ultimately show ?case using MorePages.IH by blast
qed

lemma ListS3Objects_rel_inv: "ListS3Objects pages pfx f = Inr objs \<Longrightarrow> rel_inv pfx objs"
  using listPages_rel_inv[of pfx Map.empty pages f objs] by (simp add: ListS3Objects_def rel_inv_def)

text \<open>
  Claim C6. Under a non-empty prefix, the relative path of a listed key is the key
  without the prefix and without one separator that follows it (the second separator
  of \<open>pfx//x\<close> stays). Every entry of the returned snapshot is stored under the
  relative path of its key, and no entry is stored under the empty path, which is the
  relative path of the prefix key itself.
\<close>

theorem remote_relative_paths:
  "pfx \<noteq> [] \<Longrightarrow>
     relPathOf pfx (pfx @ ''/'' @ r) = Some r \<and>
     (\<not> HasPrefix r ''/'' \<longrightarrow> relPathOf pfx (pfx @ r) = Some r) \<and>
     (\<forall>objs. ListS3Objects pages pfx f = Inr objs \<longrightarrow>
        objs [] = None \<and>
        (\<forall>p info. objs p = Some info \<longrightarrow>
           relPathOf pfx (Key info) = Some p \<and>
           ((Key info = pfx @ p \<and> \<not> HasPrefix p ''/'') \<or> Key info = pfx @ ''/'' @ p)))"
proof -
  assume ne: "pfx \<noteq> []"
  have "\<forall>objs. ListS3Objects pages pfx f = Inr objs \<longrightarrow>
        objs [] = None \<and>
        (\<forall>p info. objs p = Some info \<longrightarrow>
           relPathOf pfx (Key info) = Some p \<and>
           ((Key info = pfx @ p \<and> \<not> HasPrefix p ''/'') \<or> Key info = pfx @ ''/'' @ p))"
  proof (intro allI impI)
    fix objs assume "ListS3Objects pages pfx f = Inr objs"
    then have inv: "rel_inv pfx objs" by (rule ListS3Objects_rel_inv)
    show "objs [] = None \<and>
        (\<forall>p info. objs p = Some info \<longrightarrow>
           relPathOf pfx (Key info) = Some p \<and>
           ((Key info = pfx @ p \<and> \<not> HasPrefix p ''/'') \<or> Key info = pfx @ ''/'' @ p))"
      using inv relPathOf_cases[OF ne] unfolding rel_inv_def by blast
  qed
  then show ?thesis using relPathOf_slash[OF ne] relPathOf_plain[OF ne] by blast
qed

theorem remote_relative_paths_witness:
  "''data'' \<noteq> [] \<and>
   relPathOf ''data'' (''data'' @ ''/'' @ ''a.txt'') = Some ''a.txt'' \<and>
   \<not> HasPrefix ''base/x'' ''/'' \<and>
   relPathOf ''data'' (''data'' @ ''base/x'') = Some ''base/x'' \<and>
   (\<exists>objs. ListS3Objects
              (LastPage [\<lparr>obj_Key = Some ''data/'', obj_Size = Some 0, obj_LastModified = Some 1\<rparr>,
                         \<lparr>obj_Key = Some ''data/a.txt'', obj_Size = Some 12, obj_LastModified = Some 2\<rparr>,
                         \<lparr>obj_Key = Some ''data//b'', obj_Size = Some 3, obj_LastModified = Some 3\<rparr>])
              ''data'' None = Inr objs \<and>
           objs [] = None \<and>
           objs ''a.txt'' = Some \<lparr>Key = ''data/a.txt'', Size = 12, ModTime = 2\<rparr> \<and>
           objs ''/b'' = Some \<lparr>Key = ''data//b'', Size = 3, ModTime = 3\<rparr> \<and>
           relPathOf ''data'' ''data/a.txt'' = Some ''a.txt'' \<and>
           ''data/a.txt'' = ''data'' @ ''/'' @ ''a.txt'')"
  using remote_relative_paths
          [of "''data''" "''a.txt''"
              "LastPage [\<lparr>obj_Key = Some ''data/'', obj_Size = Some 0, obj_LastModified = Some 1\<rparr>,
                         \<lparr>obj_Key = Some ''data/a.txt'', obj_Size = Some 12, obj_LastModified = Some 2\<rparr>,
                         \<lparr>obj_Key = Some ''data//b'', obj_Size = Some 3, obj_LastModified = Some 3\<rparr>]"
              None]
        remote_relative_paths [of "''data''" "''base/x''" "LastPage []" None]
  by (simp add: ListS3Objects_def addObject_def relPathOf_def HasPrefix_def TrimPrefix_def
        filtered_out_def ToString_def ToInt64_def ToTime_def Let_def)

lemma listPages_error:
  "listing_error pages = Some e \<Longrightarrow> listPages pages pfx f objs = Inl (Errorf ''failed to list objects'' e)"
  by (induction pages arbitrary: objs) auto

lemma listPages_no_error:
  "listing_error pages = None \<Longrightarrow> \<exists>res. listPages pages pfx f objs = Inr res"
  by (induction pages arbitrary: objs) auto

lemma walkFn_fails:
  "unreadable f c
   \<Longrightarrow> \<exists>e. walkFn f objs c = Inl e"
  by (auto simp: unreadable_def walkFn_def isl_def split: option.splits sum.splits)

lemma WalkDir_fails:
  "\<exists>c\<in>set calls. unreadable f c
   \<Longrightarrow> \<exists>e. WalkDir calls f objs = Inl e"
proof (induction calls arbitrary: objs)
  case Nil
  then show ?case by simp
next
  case (Cons c cs)
  show ?case
  proof (cases "walkFn f objs c")
    case (Inl e)
    then show ?thesis by simp
  next
    case (Inr mid)
    with walkFn_fails[of f c objs] have "\<not> unreadable f c"
      by auto
    with Cons.prems have "\<exists>c\<in>set cs. unreadable f c"
      by auto
    from Cons.IH[OF this] Inr show ?thesis by simp
  qed
qed

lemma Sync_run_ReturnError:
  "Sync s fs src dst = (io, ReturnError e) \<Longrightarrow>
   Sync_run s fs src dst sr dr evs =
     (if evs = [] then Some \<lparr>performed = io, executed = [], returned = Some e\<rparr> else None)"
  by (simp add: Sync_run_def)

section \<open>Properties of the orchestrator\<close>

text \<open>
  Claim C3. An endpoint is remote when it starts with \<open>s3://\<close>. When both endpoints
  are remote or both are local, the only run of Sync is the immediate return of the
  unsupported-mode error: no enumeration is performed and no job is executed. When
  exactly one is remote, Sync is the direction function for that pair.
\<close>

theorem unsupported_mode_without_io:
  "(HasPrefix src ''s3://'' = HasPrefix dst ''s3://'' \<longrightarrow>
      Sync_run s fs src dst srcRange dstR evs =
        (if evs = []
         then Some \<lparr>performed = [], executed = [],
                    returned = Some (Failure (''unsupported sync mode: '' @ src @ '' -> '' @ dst
                                                @ '' (only S3<->Local supported)''))\<rparr>
         else None)) \<and>
   (HasPrefix src ''s3://'' \<and> \<not> HasPrefix dst ''s3://'' \<longrightarrow>
      Sync s fs src dst = syncS3ToLocal s fs src dst) \<and>
   (\<not> HasPrefix src ''s3://'' \<and> HasPrefix dst ''s3://'' \<longrightarrow>
      Sync s fs src dst = syncLocalToS3 s fs src dst)"
  by (auto simp: Sync_run_def Sync_def Let_def)

theorem unsupported_mode_witness:
  "HasPrefix ''s3://a'' ''s3://'' = HasPrefix ''s3://b/c'' ''s3://'' \<and>
   Sync_run \<lparr>client = (\<lambda>b p. LastPage []), deleteDestination = False, concurrency = 16, filter' = None\<rparr>
            (\<lambda>root. []) ''s3://a'' ''s3://b/c'' [] [] [] =
     Some \<lparr>performed = [], executed = [],
           returned = Some (Failure ''unsupported sync mode: s3://a -> s3://b/c (only S3<->Local supported)'')\<rparr> \<and>
   HasPrefix ''/data'' ''s3://'' = HasPrefix ''/backup'' ''s3://'' \<and>
   Sync_run \<lparr>client = (\<lambda>b p. LastPage []), deleteDestination = False, concurrency = 16, filter' = None\<rparr>
            (\<lambda>root. []) ''/data'' ''/backup'' [] [] [Produce] = None \<and>
   HasPrefix ''s3://bucket'' ''s3://'' \<and> \<not> HasPrefix ''/data'' ''s3://'' \<and>
   Sync \<lparr>client = (\<lambda>b p. LastPage []), deleteDestination = False, concurrency = 16, filter' = None\<rparr>
        (\<lambda>root. []) ''s3://bucket'' ''/data'' =
     ([ListObjects ''bucket'' [], Walk ''/data''],
      ExecuteSync \<lparr>srcObjs = Map.empty, dstObjs = Map.empty,
                   copyFunc = Download ''bucket'' [] ''/data'', deleteFunc = RemoveFile ''/data''\<rparr>) \<and>
   Sync \<lparr>client = (\<lambda>b p. LastPage []), deleteDestination = False, concurrency = 16, filter' = None\<rparr>
        (\<lambda>root. []) ''/data'' ''s3://bucket'' =
     ([Walk ''/data'', ListObjects ''bucket'' []],
      ExecuteSync \<lparr>srcObjs = Map.empty, dstObjs = Map.empty,
                   copyFunc = Upload ''/data'' ''bucket'' [], deleteFunc = DeleteObject ''bucket'' []\<rparr>)"
  using unsupported_mode_without_io
          [of "''s3://a''" "''s3://b/c''"
              "\<lparr>client = (\<lambda>b p. LastPage []), deleteDestination = False, concurrency = 16, filter' = None\<rparr>"
              "\<lambda>root. []" "[]" "[]" "[]"]
        unsupported_mode_without_io
          [of "''/data''" "''/backup''"
              "\<lparr>client = (\<lambda>b p. LastPage []), deleteDestination = False, concurrency = 16, filter' = None\<rparr>"
              "\<lambda>root. []" "[]" "[]" "[Produce]"]
        unsupported_mode_without_io
          [of "''s3://bucket''" "''/data''"
              "\<lparr>client = (\<lambda>b p. LastPage []), deleteDestination = False, concurrency = 16, filter' = None\<rparr>"
              "\<lambda>root. []" "[]" "[]" "[]"]
        unsupported_mode_without_io
          [of "''/data''" "''s3://bucket''"
              "\<lparr>client = (\<lambda>b p. LastPage []), deleteDestination = False, concurrency = 16, filter' = None\<rparr>"
              "\<lambda>root. []" "[]" "[]" "[]"]
  by (simp add: HasPrefix_def TrimPrefix_def syncS3ToLocal_def syncLocalToS3_def parseS3URI_def
        ListS3Objects_def WalkLocal_def Let_def)

text \<open>
  Claim C7. A listing that fails at a page makes the remote enumerator return that
  error, wrapped, and no snapshot; a walk that meets an unreadable entry makes the
  local enumerator return an error and no snapshot. When the enumeration of either side
  fails, Sync in either direction returns at once: every run returns the error of the
  side enumerated first if that one failed, else the error of the other side, and no
  job has been executed.
\<close>

theorem enumeration_error_aborts:
  "(listing_error pages = Some e \<longrightarrow>
      ListS3Objects pages pfx f = Inl (Errorf ''failed to list objects'' e)) \<and>
   ((\<exists>c\<in>set calls. unreadable f c) \<longrightarrow>
      (\<exists>e'. WalkLocal calls f = Inl (Errorf ''failed to walk local directory'' e'))) \<and>
   (HasPrefix remote ''s3://'' \<and> \<not> HasPrefix loc ''s3://'' \<and>
    parseS3URI remote = (bucket, p) \<and>
    (ListS3Objects (client s bucket p) p (filter' s) = Inl err \<or>
     WalkLocal (fs loc) (filter' s) = Inl err) \<longrightarrow>
      (\<exists>out. Sync_run s fs remote loc srcRange dstR [] = Some out) \<and>
      (\<forall>evs out. Sync_run s fs remote loc srcRange dstR evs = Some out \<longrightarrow>
         executed out = [] \<and>
         returned out = Some (case ListS3Objects (client s bucket p) p (filter' s) of
                                Inl e1 \<Rightarrow> e1 | Inr _ \<Rightarrow> err)) \<and>
      (\<forall>evs out. Sync_run s fs loc remote srcRange dstR evs = Some out \<longrightarrow>
         executed out = [] \<and>
         returned out = Some (case WalkLocal (fs loc) (filter' s) of
                                Inl e1 \<Rightarrow> e1 | Inr _ \<Rightarrow> err)))"
proof (intro conjI impI)
  assume "listing_error pages = Some e"
  then show "ListS3Objects pages pfx f = Inl (Errorf ''failed to list objects'' e)"
    by (simp add: ListS3Objects_def listPages_error)
next
  assume "\<exists>c\<in>set calls. unreadable f c"
  from WalkDir_fails[OF this, of Map.empty]
  show "\<exists>e'. WalkLocal calls f = Inl (Errorf ''failed to walk local directory'' e')"
    by (auto simp: WalkLocal_def)
next
  assume a: "HasPrefix remote ''s3://'' \<and> \<not> HasPrefix loc ''s3://'' \<and>
    parseS3URI remote = (bucket, p) \<and>
    (ListS3Objects (client s bucket p) p (filter' s) = Inl err \<or>
     WalkLocal (fs loc) (filter' s) = Inl err)"
  then have "\<exists>io e. Sync s fs remote loc = (io, ReturnError e)"
    by (auto simp: Sync_def syncS3ToLocal_def Let_def split: sum.splits)
  then show "\<exists>out. Sync_run s fs remote loc srcRange dstR [] = Some out"
    by (auto simp: Sync_run_ReturnError)
next
  assume a: "HasPrefix remote ''s3://'' \<and> \<not> HasPrefix loc ''s3://'' \<and>
    parseS3URI remote = (bucket, p) \<and>
    (ListS3Objects (client s bucket p) p (filter' s) = Inl err \<or>
     WalkLocal (fs loc) (filter' s) = Inl err)"
  then have "\<exists>io. Sync s fs remote loc =
     (io, ReturnError (case ListS3Objects (client s bucket p) p (filter' s) of
                         Inl e1 \<Rightarrow> e1 | Inr _ \<Rightarrow> err))"
    by (auto simp: Sync_def syncS3ToLocal_def Let_def split: sum.splits)
  then show "\<forall>evs out. Sync_run s fs remote loc srcRange dstR evs = Some out \<longrightarrow>
         executed out = [] \<and>
         returned out = Some (case ListS3Objects (client s bucket p) p (filter' s) of
                                Inl e1 \<Rightarrow> e1 | Inr _ \<Rightarrow> err)"
    by (auto simp: Sync_run_ReturnError split: if_splits)
next
  assume a: "HasPrefix remote ''s3://'' \<and> \<not> HasPrefix loc ''s3://'' \<and>
    parseS3URI remote = (bucket, p) \<and>
    (ListS3Objects (client s bucket p) p (filter' s) = Inl err \<or>
     WalkLocal (fs loc) (filter' s) = Inl err)"
  then have "\<exists>io. Sync s fs loc remote =
     (io, ReturnError (case WalkLocal (fs loc) (filter' s) of
                         Inl e1 \<Rightarrow> e1 | Inr _ \<Rightarrow> err))"
    by (auto simp: Sync_def syncLocalToS3_def Let_def split: sum.splits)
  then show "\<forall>evs out. Sync_run s fs loc remote srcRange dstR evs = Some out \<longrightarrow>
         executed out = [] \<and>
         returned out = Some (case WalkLocal (fs loc) (filter' s) of
                                Inl e1 \<Rightarrow> e1 | Inr _ \<Rightarrow> err)"
    by (auto simp: Sync_run_ReturnError split: if_splits)
qed

theorem enumeration_error_witness:
  "listing_error (MorePages [\<lparr>obj_Key = Some ''data/a.txt'', obj_Size = Some 12, obj_LastModified = Some 2\<rparr>]
                    (PageError (Failure ''throttled''))) = Some (Failure ''throttled'') \<and>
   ListS3Objects (MorePages [\<lparr>obj_Key = Some ''data/a.txt'', obj_Size = Some 12, obj_LastModified = Some 2\<rparr>]
                    (PageError (Failure ''throttled''))) ''data'' None
     = Inl (Errorf ''failed to list objects'' (Failure ''throttled'')) \<and>
   unreadable None \<lparr>w_path = ''/data/sub'', w_err = Some (Failure ''permission denied''), w_IsDir = True,
                    w_Rel = Inr ''sub'', w_Info = Inr (0, 0)\<rparr> \<and>
   WalkLocal [\<lparr>w_path = ''/data/a.txt'', w_err = None, w_IsDir = False,
               w_Rel = Inr ''a.txt'', w_Info = Inr (12, 2)\<rparr>,
              \<lparr>w_path = ''/data/sub'', w_err = Some (Failure ''permission denied''), w_IsDir = True,
               w_Rel = Inr ''sub'', w_Info = Inr (0, 0)\<rparr>] None
     = Inl (Errorf ''failed to walk local directory'' (Failure ''permission denied'')) \<and>
   HasPrefix ''s3://bucket/data'' ''s3://'' \<and> \<not> HasPrefix ''/data'' ''s3://'' \<and>
   parseS3URI ''s3://bucket/data'' = (''bucket'', ''data'') \<and>
   Sync_run \<lparr>client = (\<lambda>b p. PageError (Failure ''throttled'')), deleteDestination = True,
             concurrency = 16, filter' = None\<rparr>
            (\<lambda>root. []) ''s3://bucket/data'' ''/data'' [] [] [] =
     Some \<lparr>performed = [ListObjects ''bucket'' ''data''], executed = [],
           returned = Some (Errorf ''failed to list objects'' (Failure ''throttled''))\<rparr> \<and>
   Sync_run \<lparr>client = (\<lambda>b p. PageError (Failure ''throttled'')), deleteDestination = True,
             concurrency = 16, filter' = None\<rparr>
            (\<lambda>root. []) ''/data'' ''s3://bucket/data'' [] [] [] =
     Some \<lparr>performed = [Walk ''/data'', ListObjects ''bucket'' ''data''], executed = [],
           returned = Some (Errorf ''failed to list objects'' (Failure ''throttled''))\<rparr>"
  using enumeration_error_aborts
          [of "MorePages [\<lparr>obj_Key = Some ''data/a.txt'', obj_Size = Some 12, obj_LastModified = Some 2\<rparr>]
                    (PageError (Failure ''throttled''))"
              "Failure ''throttled''" "''data''" None
              "[\<lparr>w_path = ''/data/a.txt'', w_err = None, w_IsDir = False,
               w_Rel = Inr ''a.txt'', w_Info = Inr (12, 2)\<rparr>,
              \<lparr>w_path = ''/data/sub'', w_err = Some (Failure ''permission denied''), w_IsDir = True,
               w_Rel = Inr ''sub'', w_Info = Inr (0, 0)\<rparr>]"
              "''s3://bucket/data''" "''/data''" "''bucket''" "''data''"
              "\<lparr>client = (\<lambda>b p. PageError (Failure ''throttled'')), deleteDestination = True,
                concurrency = 16, filter' = None\<rparr>"
              "Errorf ''failed to list objects'' (Failure ''throttled'')"
              "\<lambda>root. []" "[]" "[]"]
  by (simp add: unreadable_def HasPrefix_def TrimPrefix_def parseS3URI_def ListS3Objects_def
        WalkLocal_def walkFn_def filtered_out_def Sync_run_def Sync_def syncS3ToLocal_def
        syncLocalToS3_def Let_def)

section \<open>Properties of executeSync\<close>

subsection \<open>Schedules and invariants\<close>

lemma run_append:
  "run c (evs1 @ evs2) st = (case run c evs1 st of None \<Rightarrow> None | Some st' \<Rightarrow> run c evs2 st')"
  by (induction evs1 arbitrary: st) (auto split: option.splits)

lemma run_invariant:
  assumes step: "\<And>ev s s'. P s \<Longrightarrow> step c ev s = Some s' \<Longrightarrow> P s'"
    and init: "P st" and run: "run c evs st = Some st'"
  shows "P st'"
  using init run
proof (induction evs arbitrary: st)
  case Nil
  then show ?case by simp
next
  case (Cons ev evs)
  from Cons.prems(2) obtain mid where m: "step c ev st = Some mid" and r: "run c evs mid = Some st'"
    by (auto split: option.splits)
  from step[OF Cons.prems(1) m] have "P mid" .
  from Cons.IH[OF this r] show ?case .
qed

lemma plan_inv_start: "plan_inv c srcRange (start c srcRange)"
  by (simp add: plan_inv_def start_def plan_def)

lemma err_inv_start: "err_inv (start c srcRange)"
  by (simp add: err_inv_def start_def)

lemma queue_inv_start: "queue_inv c (start c srcRange)"
  by (simp add: queue_inv_def start_def)

lemma queue_inv_step:
  assumes "queue_inv c st" and "step c ev st = Some st'"
  shows "queue_inv c st'"
proof (cases ev)
  case (CtxDone e)
  with assms show ?thesis
    by (cases "producer st") (auto simp: queue_inv_def ctxDone_def split: if_splits)
next
  case Produce
  with assms show ?thesis
    by (cases "producer st")
       (auto simp: queue_inv_def produce_def afterCopy_def closeJobs_def list_all_iff
          split: if_splits list.splits option.splits)
next
  case SubmitSend
  with assms show ?thesis
    by (cases "producer st") (auto simp: queue_inv_def submitSend_def split: if_splits)
next
  case SubmitDone
  with assms show ?thesis
    by (cases "producer st")
       (auto simp: queue_inv_def submitDone_def afterCopy_def closeJobs_def split: if_splits)
next
  case (Recv i)
  from assms(2) Recv have w: "i < length (workers st)" "workers st ! i = Selecting"
    by (auto simp: recv_def split: if_splits)
  then have sel: "Selecting \<in> set (workers st)" by (metis nth_mem)
  show ?thesis
  proof (cases "jobs st")
    case Nil
    with assms Recv w sel show ?thesis
      by (auto simp: queue_inv_def recv_def split: if_splits dest: set_update_subset_insert[THEN subsetD])
  next
    case (Cons j js)
    with assms Recv w sel show ?thesis
      by (auto simp: queue_inv_def recv_def split: if_splits dest!: set_update_subset_insert[THEN subsetD])
  qed
next
  case (Done i)
  from assms(2) Done have w: "i < length (workers st)" "workers st ! i = Selecting"
    by (auto simp: workerDone_def split: if_splits)
  then have sel: "Selecting \<in> set (workers st)" by (metis nth_mem)
  with assms Done w show ?thesis
    by (auto simp: queue_inv_def workerDone_def split: if_splits)
next
  case (Return i r)
  from assms(2) Return obtain j where w: "i < length (workers st)" "workers st ! i = Executing j"
    by (auto simp: jobReturn_def split: if_splits worker.splits)
  then have ex: "Executing j \<in> set (workers st)" by (metis nth_mem)
  with assms Return w show ?thesis
    by (cases r)
       (auto simp: queue_inv_def jobReturn_def cancel_def split: if_splits option.splits
          dest!: set_update_subset_insert[THEN subsetD])
qed

lemma result_producer_update [simp]: "result (st\<lparr>producer := p\<rparr>) = result st"
  by (simp add: result_def split: option.splits)

lemma take_snoc_cap:
  "take n (map snd (fs @ [(j, e)])) =
     (if length (take n (map snd fs)) < n then take n (map snd fs) @ [e] else take n (map snd fs))"
  by auto

lemma err_inv_step:
  assumes "err_inv st" and "queue_inv c st" and "step c ev st = Some st'"
  shows "err_inv st'"
proof (cases ev)
  case (CtxDone e)
  with assms show ?thesis
    by (cases "producer st") (auto simp: err_inv_def ctxDone_def result_def split: if_splits)
next
  case Produce
  with assms show ?thesis
    by (cases "producer st")
       (auto simp: err_inv_def produce_def afterCopy_def closeJobs_def
          split: if_splits list.splits option.splits)
next
  case SubmitSend
  with assms show ?thesis
    by (cases "producer st") (auto simp: err_inv_def submitSend_def result_def split: if_splits)
next
  case SubmitDone
  with assms show ?thesis
    by (cases "producer st")
       (auto simp: err_inv_def submitDone_def afterCopy_def closeJobs_def result_def split: if_splits)
next
  case (Recv i)
  with assms show ?thesis
    by (auto simp: err_inv_def recv_def result_def split: if_splits list.splits)
next
  case (Done i)
  with assms show ?thesis
    by (auto simp: err_inv_def workerDone_def result_def split: if_splits)
next
  case (Return i r)
  from assms(3) Return obtain j where w: "i < length (workers st)" "workers st ! i = Executing j"
    by (auto simp: jobReturn_def split: if_splits worker.splits)
  then have "Executing j \<in> set (workers st)" by (metis nth_mem)
  with assms(2) have nr: "\<And>r. producer st \<noteq> Returned r"
    by (auto simp: queue_inv_def)
  show ?thesis
  proof (cases r)
    case None
    with Return assms w nr show ?thesis
      by (auto simp: err_inv_def jobReturn_def)
  next
    case (Some e)
    with Return assms(3) w have
      st': "st' = st\<lparr>errChan := (if length (errChan st) < errChan_cap
                                          then errChan st @ [e] else errChan st),
                           ctx_err := cancel (ctx_err st),
                           workers := (workers st)[i := Exited],
                           failures := failures st @ [(j, e)]\<rparr>"
      by (simp add: jobReturn_def)
    from assms(1) have ec: "errChan st = take errChan_cap (map snd (failures st))"
      by (simp add: err_inv_def)
    have "errChan st' = take errChan_cap (map snd (failures st'))"
      unfolding st' using ec take_snoc_cap[of errChan_cap "failures st" j e] by simp
    moreover have "ctx_err st' = None \<or> ctx_err st' = Some Canceled \<or> ctx_err st' = Some DeadlineExceeded"
      using assms(1) unfolding st' by (auto simp: err_inv_def cancel_def)
    moreover have "ctx_err st' \<noteq> None" unfolding st' by (simp add: cancel_def split: option.splits)
    moreover have "\<And>r. producer st' \<noteq> Returned r" using nr unfolding st' by simp
    ultimately show ?thesis by (simp add: err_inv_def)
  qed
qed

lemma plan_inv_produce:
  assumes "plan_inv c srcRange st" and "produce c st = Some st'"
  shows "plan_inv c srcRange st'"
proof (cases "producer st")
  case (CopyLoop ks)
  show ?thesis
  proof (cases ks)
    case Nil
    with CopyLoop assms show ?thesis
      by (auto simp: plan_inv_def produce_def afterCopy_def closeJobs_def copyJobs_def deletePhase_def
          split: if_splits)
  next
    case (Cons p ps)
    with CopyLoop assms show ?thesis
      by (auto simp: plan_inv_def produce_def afterCopy_def closeJobs_def copyJobs_def copyJob_def
          wantsCopy_def split: if_splits option.splits)
  qed
next
  case (CopySubmit j ks)
  with assms show ?thesis by (simp add: produce_def)
next
  case (DeleteLoop ks)
  show ?thesis
  proof (cases ks)
    case Nil
    with DeleteLoop assms show ?thesis
      by (auto simp: plan_inv_def produce_def closeJobs_def deleteJobs_def split: if_splits)
  next
    case (Cons p ps)
    with DeleteLoop assms show ?thesis
      by (auto simp: plan_inv_def produce_def closeJobs_def deleteJobs_def deleteJob_def
          wantsDelete_def split: if_splits)
  qed
next
  case (DeleteSubmit j ks)
  with assms show ?thesis by (simp add: produce_def)
next
  case Wait
  with assms show ?thesis by (auto simp: plan_inv_def produce_def split: if_splits)
next
  case (Returned r)
  with assms show ?thesis by (simp add: produce_def)
qed

lemma plan_inv_step:
  assumes "plan_inv c srcRange st" and "step c ev st = Some st'"
  shows "plan_inv c srcRange st'"
proof (cases ev)
  case (CtxDone e)
  with assms show ?thesis
    by (cases "producer st") (auto simp: plan_inv_def ctxDone_def split: if_splits)
next
  case Produce
  with assms plan_inv_produce show ?thesis by simp
next
  case SubmitSend
  with assms show ?thesis
    by (cases "producer st") (auto simp: plan_inv_def submitSend_def split: if_splits)
next
  case SubmitDone
  with assms show ?thesis
    by (cases "producer st")
       (auto simp: plan_inv_def submitDone_def afterCopy_def closeJobs_def split: if_splits)
next
  case (Recv i)
  with assms show ?thesis
    by (auto simp: plan_inv_def recv_def split: if_splits list.splits)
next
  case (Done i)
  with assms show ?thesis
    by (auto simp: plan_inv_def workerDone_def split: if_splits)
next
  case (Return i r)
  with assms show ?thesis
    by (cases "producer st")
       (auto simp: plan_inv_def jobReturn_def cancel_def split: if_splits worker.splits option.splits)
qed

lemma plan_inv_run:
  assumes "executeSync c srcRange evs = Some st"
  shows "plan_inv c srcRange st"
proof (rule run_invariant[where P="plan_inv c srcRange" and c=c])
  show "\<And>ev s s'. plan_inv c srcRange s \<Longrightarrow> step c ev s = Some s' \<Longrightarrow> plan_inv c srcRange s'"
    by (rule plan_inv_step)
  show "plan_inv c srcRange (start c srcRange)" by (rule plan_inv_start)
  show "run c evs (start c srcRange) = Some st" using assms by (simp add: executeSync_def)
qed

lemma queue_inv_run:
  assumes "executeSync c srcRange evs = Some st"
  shows "queue_inv c st"
proof (rule run_invariant[where P="queue_inv c" and c=c])
  show "\<And>ev s s'. queue_inv c s \<Longrightarrow> step c ev s = Some s' \<Longrightarrow> queue_inv c s'"
    by (rule queue_inv_step)
  show "queue_inv c (start c srcRange)" by (rule queue_inv_start)
  show "run c evs (start c srcRange) = Some st" using assms by (simp add: executeSync_def)
qed

lemma err_inv_run:
  assumes "executeSync c srcRange evs = Some st"
  shows "err_inv st"
proof -
  have "queue_inv c st \<and> err_inv st"
  proof (rule run_invariant[where P="\<lambda>s. queue_inv c s \<and> err_inv s" and c=c])
    show "\<And>ev s s'. queue_inv c s \<and> err_inv s \<Longrightarrow> step c ev s = Some s' \<Longrightarrow> queue_inv c s' \<and> err_inv s'"
      using queue_inv_step err_inv_step by blast
    show "queue_inv c (start c srcRange) \<and> err_inv (start c srcRange)"
      by (simp add: queue_inv_start err_inv_start)
    show "run c evs (start c srcRange) = Some st" using assms by (simp add: executeSync_def)
  qed
  then show ?thesis by simp
qed

subsection \<open>The model on the inputs of the tests\<close>

lemmas exec_defs =
  executeSync_def start_def test_call_def test_args_def download_call_def test_syncer_def
  second_call_def produce_def submitSend_def submitDone_def
  recv_def workerDone_def jobReturn_def ctxDone_def afterCopy_def closeJobs_def result_def
  shouldCopy_def After_def cancel_def jobs_cap_def errChan_cap_def

lemma test_range_src: "range_order (srcObjs (args (test_call del k))) [''a.txt'', ''b.txt'']"
  by (auto simp: range_order_def test_call_def test_args_def)

lemma test_range_dst: "range_order (dstObjs (args (test_call del k))) (dstRange (test_call del k))"
  by (auto simp: range_order_def test_call_def test_args_def)

lemma test_funcs: "copyFunc (args (test_call del k)) \<noteq> deleteFunc (args (test_call del k))"
  by (simp add: test_call_def test_args_def)

subsection \<open>The plan\<close>

lemma wantsCopy_rule: "wantsCopy c p = copy_rule (srcObjs (args c)) (dstObjs (args c)) p"
  by (auto simp: wantsCopy_def copy_rule_def shouldCopy_def split: option.splits)

lemma copyJob_inj: "copyJob c p = copyJob c q \<Longrightarrow> p = q"
  by (simp add: copyJob_def)

lemma deleteJob_inj: "deleteJob c p = deleteJob c q \<Longrightarrow> p = q"
  by (simp add: deleteJob_def)

lemma copyJob_in_copyJobs: "copyJob c p \<in> set (copyJobs c ks) \<longleftrightarrow> p \<in> set ks \<and> wantsCopy c p"
  by (auto simp: copyJobs_def dest: copyJob_inj)

lemma deleteJob_in_deleteJobs: "deleteJob c p \<in> set (deleteJobs c ks) \<longleftrightarrow> p \<in> set ks \<and> wantsDelete c p"
  by (auto simp: deleteJobs_def dest: deleteJob_inj)

lemma copyJob_not_delete:
  "copyFunc (args c) \<noteq> deleteFunc (args c) \<Longrightarrow> copyJob c p \<notin> set (deleteJobs c ks)"
  by (auto simp: deleteJobs_def copyJob_def deleteJob_def)

lemma deleteJob_not_copy:
  "copyFunc (args c) \<noteq> deleteFunc (args c) \<Longrightarrow> deleteJob c p \<notin> set (copyJobs c ks)"
  by (auto simp: copyJobs_def copyJob_def deleteJob_def)

lemma copyJob_in_plan:
  assumes "copyFunc (args c) \<noteq> deleteFunc (args c)"
  shows "copyJob c p \<in> set (plan c ks) \<longleftrightarrow> p \<in> set ks \<and> wantsCopy c p"
  using copyJob_not_delete[OF assms]
  by (auto simp: plan_def deletePhase_def copyJob_in_copyJobs)

lemma deleteJob_in_plan:
  assumes "copyFunc (args c) \<noteq> deleteFunc (args c)"
  shows "deleteJob c p \<in> set (plan c ks) \<longleftrightarrow>
         deleteDestination (syncer c) \<and> p \<in> set (dstRange c) \<and> wantsDelete c p"
  using deleteJob_not_copy[OF assms]
  by (auto simp: plan_def deletePhase_def deleteJob_in_deleteJobs)

lemma submitted_subset_plan:
  "executeSync c srcRange evs = Some st \<Longrightarrow> set (submitted st) \<subseteq> set (plan c srcRange)"
  using plan_inv_run[of c srcRange evs st] by (auto simp: plan_inv_def)

lemma copyJob_not_pending:
  assumes "copyFunc (args c) \<noteq> deleteFunc (args c)" and "in_hand_ok c pr" and "\<not> in_copy_loop pr"
  shows "copyJob c p \<notin> set (pending c pr)"
  using assms copyJob_not_delete[OF assms(1)]
  by (cases pr) (auto simp: copyJob_def)

lemma plan_submitted_when_returned:
  assumes "executeSync c srcRange evs = Some st" and "ctx_err st = None" and "producer st = Returned r"
  shows "submitted st = plan c srcRange"
  using plan_inv_run[OF assms(1)] assms(2,3) by (simp add: plan_inv_def)

text \<open>The two callbacks that a direction hands over are never the same.\<close>

lemma Sync_funcs_differ:
  "Sync s fs src dst = (io, ExecuteSync a) \<Longrightarrow> copyFunc a \<noteq> deleteFunc a"
  by (auto simp: Sync_def syncS3ToLocal_def syncLocalToS3_def Let_def
      split: if_splits prod.splits sum.splits)

text \<open>
  Claim C1. In every state a call can reach, a copy job for \<open>p\<close> has been submitted
  only if \<open>p\<close> satisfies the copy rule: it is in the source snapshot and is absent from
  the destination, or has another size there, or has the same size and a strictly later
  modification time. Once the copy loop has ended and the context is not cancelled, the
  copy job for \<open>p\<close> has been submitted exactly when \<open>p\<close> satisfies the rule; in
  particular a path of unequal sizes is copied whatever the two times are.
\<close>

theorem copy_decision:
  assumes ro: "range_order (srcObjs (args c)) srcRange"
    and ne: "copyFunc (args c) \<noteq> deleteFunc (args c)"
    and run: "executeSync c srcRange evs = Some st"
  shows "(\<lparr>path = p, fn = copyFunc (args c)\<rparr> \<in> set (submitted st) \<longrightarrow>
            copy_rule (srcObjs (args c)) (dstObjs (args c)) p) \<and>
         (ctx_err st = None \<and> \<not> in_copy_loop (producer st) \<longrightarrow>
            (\<lparr>path = p, fn = copyFunc (args c)\<rparr> \<in> set (submitted st)) =
            copy_rule (srcObjs (args c)) (dstObjs (args c)) p) \<and>
         (ctx_err st = None \<and> \<not> in_copy_loop (producer st) \<longrightarrow>
            (\<forall>s d. srcObjs (args c) p = Some s \<and> dstObjs (args c) p = Some d \<and> Size s \<noteq> Size d \<longrightarrow>
               \<lparr>path = p, fn = copyFunc (args c)\<rparr> \<in> set (submitted st)))"
proof -
  let ?j = "\<lparr>path = p, fn = copyFunc (args c)\<rparr>"
  let ?R = "copy_rule (srcObjs (args c)) (dstObjs (args c)) p"
  have j: "?j = copyJob c p" by (simp add: copyJob_def)
  have sound: "?j \<in> set (submitted st) \<longrightarrow> ?R"
    using submitted_subset_plan[OF run] copyJob_in_plan[OF ne, of p srcRange]
    unfolding j wantsCopy_rule by blast
  have complete: "?j \<in> set (submitted st)"
    if c0: "ctx_err st = None" "\<not> in_copy_loop (producer st)" and R: "?R"
  proof -
    from plan_inv_run[OF run] c0(1)
    have eq: "plan c srcRange = submitted st @ pending c (producer st)"
      and hand: "in_hand_ok c (producer st)"
      by (simp_all add: plan_inv_def)
    from R have "srcObjs (args c) p \<noteq> None" by (auto simp: copy_rule_def)
    with ro have "p \<in> set srcRange" by (simp add: range_order_def)
    with R have "copyJob c p \<in> set (plan c srcRange)"
      using copyJob_in_plan[OF ne, of p srcRange] by (simp add: wantsCopy_rule)
    with eq have "copyJob c p \<in> set (submitted st) \<or> copyJob c p \<in> set (pending c (producer st))"
      by auto
    with copyJob_not_pending[OF ne hand c0(2)] show ?thesis unfolding j by blast
  qed
  have size: "?R" if "srcObjs (args c) p = Some s" "dstObjs (args c) p = Some d" "Size s \<noteq> Size d" for s d
    using that by (auto simp: copy_rule_def)
  from sound complete size show ?thesis by blast
qed

theorem copy_decision_witness:
  "\<exists>st. range_order (srcObjs (args (test_call True 1))) [''a.txt'', ''b.txt''] \<and>
        copyFunc (args (test_call True 1)) \<noteq> deleteFunc (args (test_call True 1)) \<and>
        executeSync (test_call True 1) [''a.txt'', ''b.txt'']
           [Produce, SubmitSend, Produce, Produce, Produce, Produce, SubmitSend, Produce,
            Recv 0, Return 0 None, Recv 0, Return 0 None, Recv 0, Produce] = Some st \<and>
        ctx_err st = None \<and> \<not> in_copy_loop (producer st) \<and>
        \<lparr>path = ''a.txt'', fn = copyFunc (args (test_call True 1))\<rparr> \<in> set (submitted st) \<and>
        copy_rule (srcObjs (args (test_call True 1))) (dstObjs (args (test_call True 1))) ''a.txt'' \<and>
        \<lparr>path = ''b.txt'', fn = copyFunc (args (test_call True 1))\<rparr> \<notin> set (submitted st) \<and>
        \<not> copy_rule (srcObjs (args (test_call True 1))) (dstObjs (args (test_call True 1))) ''b.txt''"
proof -
  have "\<exists>st. executeSync (test_call True 1) [''a.txt'', ''b.txt'']
           [Produce, SubmitSend, Produce, Produce, Produce, Produce, SubmitSend, Produce,
            Recv 0, Return 0 None, Recv 0, Return 0 None, Recv 0, Produce] = Some st \<and>
        producer st = Returned None \<and> ctx_err st = None \<and>
        submitted st = [\<lparr>path = ''a.txt'', fn = Upload ''/data'' ''bucket'' []\<rparr>,
                        \<lparr>path = ''stale.txt'', fn = DeleteObject ''bucket'' []\<rparr>]"
    by (simp add: exec_defs)
  then obtain st where run: "executeSync (test_call True 1) [''a.txt'', ''b.txt'']
           [Produce, SubmitSend, Produce, Produce, Produce, Produce, SubmitSend, Produce,
            Recv 0, Return 0 None, Recv 0, Return 0 None, Recv 0, Produce] = Some st"
    and st: "producer st = Returned None" "ctx_err st = None"
      "submitted st = [\<lparr>path = ''a.txt'', fn = Upload ''/data'' ''bucket'' []\<rparr>,
                        \<lparr>path = ''stale.txt'', fn = DeleteObject ''bucket'' []\<rparr>]"
    by blast
  have f: "copyFunc (args (test_call True 1)) = Upload ''/data'' ''bucket'' []"
    by (simp add: test_call_def test_args_def)
  from copy_decision[OF test_range_src test_funcs run, of "''a.txt''"]
       copy_decision[OF test_range_src test_funcs run, of "''b.txt''"]
       st f run test_range_src[of True 1] test_funcs[of True 1]
  show ?thesis by auto
qed

text \<open>
  Claim C2. With deletion disabled no delete job is ever submitted. A delete job for
  \<open>p\<close> is submitted only with deletion enabled and \<open>p\<close> present in the destination
  snapshot and absent from the source snapshot; when such a call has returned without
  cancellation, it has been submitted exactly for those paths. Sizes and times play no
  part.
\<close>

theorem delete_decision:
  assumes ro: "range_order (dstObjs (args c)) (dstRange c)"
    and ne: "copyFunc (args c) \<noteq> deleteFunc (args c)"
    and run: "executeSync c srcRange evs = Some st"
  shows "(\<not> deleteDestination (syncer c) \<longrightarrow>
            (\<forall>q. \<lparr>path = q, fn = deleteFunc (args c)\<rparr> \<notin> set (submitted st))) \<and>
         (\<lparr>path = p, fn = deleteFunc (args c)\<rparr> \<in> set (submitted st) \<longrightarrow>
            deleteDestination (syncer c) \<and> dstObjs (args c) p \<noteq> None \<and> srcObjs (args c) p = None) \<and>
         (deleteDestination (syncer c) \<and> ctx_err st = None \<and> (\<exists>r. producer st = Returned r) \<longrightarrow>
            (\<lparr>path = p, fn = deleteFunc (args c)\<rparr> \<in> set (submitted st)) =
            (dstObjs (args c) p \<noteq> None \<and> srcObjs (args c) p = None))"
proof -
  have j: "\<And>q. \<lparr>path = q, fn = deleteFunc (args c)\<rparr> = deleteJob c q" by (simp add: deleteJob_def)
  have inplan: "\<And>q. deleteJob c q \<in> set (plan c srcRange) \<longleftrightarrow>
      deleteDestination (syncer c) \<and> dstObjs (args c) q \<noteq> None \<and> srcObjs (args c) q = None"
    using deleteJob_in_plan[OF ne] ro by (simp add: range_order_def wantsDelete_def)
  have sound: "\<And>q. deleteJob c q \<in> set (submitted st) \<Longrightarrow>
      deleteDestination (syncer c) \<and> dstObjs (args c) q \<noteq> None \<and> srcObjs (args c) q = None"
    using submitted_subset_plan[OF run] inplan by blast
  have complete: "deleteJob c p \<in> set (submitted st) \<longleftrightarrow>
      (dstObjs (args c) p \<noteq> None \<and> srcObjs (args c) p = None)"
    if "deleteDestination (syncer c)" "ctx_err st = None" "\<exists>r. producer st = Returned r"
    using that plan_submitted_when_returned[OF run] inplan[of p] by auto
  from sound complete show ?thesis unfolding j by blast
qed

theorem delete_decision_witness:
  "\<exists>st st'. range_order (dstObjs (args (test_call True 1))) (dstRange (test_call True 1)) \<and>
        copyFunc (args (test_call True 1)) \<noteq> deleteFunc (args (test_call True 1)) \<and>
        executeSync (test_call True 1) [''a.txt'', ''b.txt'']
           [Produce, SubmitSend, Produce, Produce, Produce, Produce, SubmitSend, Produce,
            Recv 0, Return 0 None, Recv 0, Return 0 None, Recv 0, Produce] = Some st \<and>
        deleteDestination (syncer (test_call True 1)) \<and> ctx_err st = None \<and>
        producer st = Returned None \<and>
        \<lparr>path = ''stale.txt'', fn = deleteFunc (args (test_call True 1))\<rparr> \<in> set (submitted st) \<and>
        dstObjs (args (test_call True 1)) ''stale.txt'' \<noteq> None \<and>
        srcObjs (args (test_call True 1)) ''stale.txt'' = None \<and>
        \<lparr>path = ''b.txt'', fn = deleteFunc (args (test_call True 1))\<rparr> \<notin> set (submitted st) \<and>
        srcObjs (args (test_call True 1)) ''b.txt'' \<noteq> None \<and>
        \<not> deleteDestination (syncer (test_call False 1)) \<and>
        executeSync (test_call False 1) [''a.txt'', ''b.txt'']
           [Produce, SubmitSend, Produce, Produce, Recv 0, Return 0 None, Recv 0, Produce] = Some st' \<and>
        producer st' = Returned None \<and>
        \<lparr>path = ''stale.txt'', fn = deleteFunc (args (test_call False 1))\<rparr> \<notin> set (submitted st')"
proof -
  have "\<exists>st. executeSync (test_call True 1) [''a.txt'', ''b.txt'']
           [Produce, SubmitSend, Produce, Produce, Produce, Produce, SubmitSend, Produce,
            Recv 0, Return 0 None, Recv 0, Return 0 None, Recv 0, Produce] = Some st \<and>
        producer st = Returned None \<and> ctx_err st = None"
    by (simp add: exec_defs)
  then obtain st where run: "executeSync (test_call True 1) [''a.txt'', ''b.txt'']
           [Produce, SubmitSend, Produce, Produce, Produce, Produce, SubmitSend, Produce,
            Recv 0, Return 0 None, Recv 0, Return 0 None, Recv 0, Produce] = Some st"
    and st: "producer st = Returned None" "ctx_err st = None"
    by blast
  have "\<exists>st'. executeSync (test_call False 1) [''a.txt'', ''b.txt'']
           [Produce, SubmitSend, Produce, Produce, Recv 0, Return 0 None, Recv 0, Produce] = Some st' \<and>
        producer st' = Returned None"
    by (simp add: exec_defs)
  then obtain st' where run': "executeSync (test_call False 1) [''a.txt'', ''b.txt'']
           [Produce, SubmitSend, Produce, Produce, Recv 0, Return 0 None, Recv 0, Produce] = Some st'"
    and st': "producer st' = Returned None"
    by blast
  have d: "deleteDestination (syncer (test_call True 1))" "\<not> deleteDestination (syncer (test_call False 1))"
    "dstObjs (args (test_call True 1)) ''stale.txt'' \<noteq> None"
    "srcObjs (args (test_call True 1)) ''stale.txt'' = None"
    "srcObjs (args (test_call True 1)) ''b.txt'' \<noteq> None"
    by (simp_all add: test_call_def test_args_def)
  from delete_decision[OF test_range_dst test_funcs run, of "''stale.txt''"]
       delete_decision[OF test_range_dst test_funcs run, of "''b.txt''"]
       delete_decision[OF test_range_dst test_funcs run', of "''stale.txt''"]
       st st' d run run' test_range_dst[of True 1] test_funcs[of True 1]
  show ?thesis by auto
qed

subsection \<open>The worker pool\<close>

lemma in_flight_le: "in_flight st \<le> length (workers st)"
  by (simp add: in_flight_def)

text \<open>
  Claim C9. \<^verbatim>\<open>New\<close> sets the concurrency to 16 when no option changes it, and the
  configuration loader never yields less than 1. With the concurrency set to \<open>k \<ge> 1\<close>,
  in every state a call can reach, whatever the snapshots are, at most \<open>k\<close> workers
  are inside an executor.
\<close>

theorem at_most_k_in_flight:
  "(\<forall>cl. \<exists>s. New (Inr cl) [] = Inr s \<and> concurrency s = 16) \<and>
   1 \<le> Load_Concurrency scanned \<and>
   (1 \<le> concurrency (syncer c) \<and> executeSync c srcRange evs = Some st \<longrightarrow>
      int (in_flight st) \<le> concurrency (syncer c))"
proof -
  have a: "\<forall>cl. \<exists>s. New (Inr cl) [] = Inr s \<and> concurrency s = 16" by (simp add: New_def)
  have b: "1 \<le> Load_Concurrency scanned" by (simp add: Load_Concurrency_def split: option.splits)
  have c: "int (in_flight st) \<le> concurrency (syncer c)"
    if "1 \<le> concurrency (syncer c)" "executeSync c srcRange evs = Some st"
  proof -
    from queue_inv_run[OF that(2)] have "length (workers st) = nat (concurrency (syncer c))"
      by (simp add: queue_inv_def)
    with in_flight_le[of st] that(1) show ?thesis by linarith
  qed
  from a b c show ?thesis by blast
qed

theorem at_most_k_in_flight_witness:
  "(\<exists>s. New (Inr (MockS3Client [])) [] = Inr s \<and> concurrency s = 16) \<and>
   Load_Concurrency (Some 0) = 16 \<and> Load_Concurrency (Some 4) = 4 \<and> 1 \<le> Load_Concurrency (Some 0) \<and>
   1 \<le> concurrency (syncer (test_call True 2)) \<and>
   (\<exists>st. executeSync (test_call True 2) [''a.txt'', ''b.txt'']
           [Produce, SubmitSend, Produce, Produce, Produce, Produce, SubmitSend, Recv 0, Recv 1] = Some st \<and>
         in_flight st = 2 \<and> int (in_flight st) \<le> concurrency (syncer (test_call True 2)))"
proof -
  have "\<exists>st. executeSync (test_call True 2) [''a.txt'', ''b.txt'']
           [Produce, SubmitSend, Produce, Produce, Produce, Produce, SubmitSend, Recv 0, Recv 1] = Some st \<and>
         in_flight st = 2"
    by (simp add: exec_defs in_flight_def eval_nat_numeral)
  then obtain st where run: "executeSync (test_call True 2) [''a.txt'', ''b.txt'']
           [Produce, SubmitSend, Produce, Produce, Produce, Produce, SubmitSend, Recv 0, Recv 1] = Some st"
    and two: "in_flight st = 2" by blast
  have k: "1 \<le> concurrency (syncer (test_call True 2))" by (simp add: test_call_def)
  from at_most_k_in_flight[of "Some 0" "test_call True 2" "[''a.txt'', ''b.txt'']"
         "[Produce, SubmitSend, Produce, Produce, Produce, Produce, SubmitSend, Recv 0, Recv 1]" st]
       run two k
  show ?thesis by (auto simp: Load_Concurrency_def)
qed

lemma cancelled_step:
  assumes "ctx_err st \<noteq> None" and "step c ev st = Some st'"
  shows "ctx_err st' \<noteq> None \<and>
         length (submitted st') + owed (producer st') \<le> length (submitted st) + owed (producer st) \<and>
         length (started st') + length (jobs st') + owed (producer st')
           \<le> length (started st) + length (jobs st) + owed (producer st)"
proof (cases ev)
  case (CtxDone e)
  with assms show ?thesis
    by (cases "producer st") (auto simp: ctxDone_def split: if_splits)
next
  case Produce
  with assms show ?thesis
    by (cases "producer st")
       (auto simp: produce_def afterCopy_def closeJobs_def split: if_splits list.splits option.splits)
next
  case SubmitSend
  with assms show ?thesis
    by (cases "producer st") (auto simp: submitSend_def split: if_splits)
next
  case SubmitDone
  with assms show ?thesis
    by (cases "producer st") (auto simp: submitDone_def afterCopy_def closeJobs_def split: if_splits)
next
  case (Recv i)
  with assms show ?thesis
    by (auto simp: recv_def split: if_splits list.splits)
next
  case (Done i)
  with assms show ?thesis
    by (auto simp: workerDone_def split: if_splits)
next
  case (Return i r)
  with assms show ?thesis
    by (auto simp: jobReturn_def cancel_def split: if_splits worker.splits option.splits)
qed

lemma cancelled_run:
  assumes "ctx_err st \<noteq> None" and "run c evs st = Some st'"
  shows "ctx_err st' \<noteq> None \<and>
         length (submitted st') + owed (producer st') \<le> length (submitted st) + owed (producer st) \<and>
         length (started st') + length (jobs st') + owed (producer st')
           \<le> length (started st) + length (jobs st) + owed (producer st)"
  using assms
proof (induction evs arbitrary: st)
  case Nil
  then show ?case by simp
next
  case (Cons ev evs)
  from Cons.prems(2) obtain mid where m: "step c ev st = Some mid" and r: "run c evs mid = Some st'"
    by (auto split: option.splits)
  from cancelled_step[OF Cons.prems(1) m] Cons.IH[OF _ r] show ?case by force
qed

lemma exited_step:
  assumes "i < length (workers st)" and "workers st ! i = Exited" and "step c ev st = Some st'"
  shows "i < length (workers st') \<and> workers st' ! i = Exited"
proof (cases ev)
  case (CtxDone e)
  with assms show ?thesis
    by (cases "producer st") (auto simp: ctxDone_def split: if_splits)
next
  case Produce
  with assms show ?thesis
    by (cases "producer st")
       (auto simp: produce_def afterCopy_def closeJobs_def split: if_splits list.splits option.splits)
next
  case SubmitSend
  with assms show ?thesis
    by (cases "producer st") (auto simp: submitSend_def split: if_splits)
next
  case SubmitDone
  with assms show ?thesis
    by (cases "producer st") (auto simp: submitDone_def afterCopy_def closeJobs_def split: if_splits)
next
  case (Recv k)
  with assms show ?thesis
    by (auto simp: recv_def nth_list_update split: if_splits list.splits)
next
  case (Done k)
  with assms show ?thesis
    by (auto simp: workerDone_def nth_list_update split: if_splits)
next
  case (Return k r)
  with assms show ?thesis
    by (auto simp: jobReturn_def nth_list_update split: if_splits worker.splits option.splits)
qed

lemma exited_run:
  assumes "i < length (workers st)" and "workers st ! i = Exited" and "run c evs st = Some st'"
  shows "i < length (workers st') \<and> workers st' ! i = Exited"
  using assms
proof (induction evs arbitrary: st)
  case Nil
  then show ?case by simp
next
  case (Cons ev evs)
  from Cons.prems(3) obtain mid where m: "step c ev st = Some mid" and r: "run c evs mid = Some st'"
    by (auto split: option.splits)
  from exited_step[OF Cons.prems(1,2) m] Cons.IH[OF _ _ r] show ?case by blast
qed

lemma result_cases:
  assumes "err_inv st"
  shows "(ctx_err st = Some DeadlineExceeded \<longrightarrow> result st = Some DeadlineExceeded) \<and>
         (ctx_err st \<noteq> Some DeadlineExceeded \<longrightarrow>
            result st = (case failures st of [] \<Rightarrow> None | (j, e) # rest \<Rightarrow> Some e))"
proof -
  from assms have ec: "errChan st = take errChan_cap (map snd (failures st))"
    and ce: "ctx_err st = None \<or> ctx_err st = Some Canceled \<or> ctx_err st = Some DeadlineExceeded"
    by (simp_all add: err_inv_def)
  have hd: "(case errChan st of [] \<Rightarrow> None | e' # x \<Rightarrow> Some e') =
            (case failures st of [] \<Rightarrow> None | (j, e) # rest \<Rightarrow> Some e)"
    unfolding ec by (cases "failures st") (auto simp: errChan_cap_def)
  from ce hd show ?thesis by (auto simp: result_def)
qed

subsection \<open>Progress: a call with a worker can always return\<close>

lemma keys_inv_step:
  assumes "keys_inv c st" and "step c ev st = Some st'"
  shows "keys_inv c st'"
proof (cases ev)
  case (CtxDone e)
  with assms show ?thesis
    by (cases "producer st") (auto simp: keys_inv_def ctxDone_def split: if_splits)
next
  case Produce
  with assms show ?thesis
    by (cases "producer st")
       (auto simp: keys_inv_def produce_def afterCopy_def closeJobs_def
          split: if_splits list.splits option.splits)
next
  case SubmitSend
  with assms show ?thesis
    by (cases "producer st") (auto simp: keys_inv_def submitSend_def split: if_splits)
next
  case SubmitDone
  with assms show ?thesis
    by (cases "producer st")
       (auto simp: keys_inv_def submitDone_def afterCopy_def closeJobs_def split: if_splits)
next
  case (Recv i)
  with assms show ?thesis
    by (auto simp: keys_inv_def recv_def split: if_splits list.splits)
next
  case (Done i)
  with assms show ?thesis
    by (auto simp: keys_inv_def workerDone_def split: if_splits)
next
  case (Return i r)
  with assms show ?thesis
    by (auto simp: keys_inv_def jobReturn_def split: if_splits worker.splits option.splits)
qed

lemma weight_update:
  "i < length ws \<Longrightarrow>
   sum_list (map weight (ws[i := w])) + weight (ws ! i) = sum_list (map weight ws) + weight w"
proof (induction ws arbitrary: i)
  case Nil
  then show ?case by simp
next
  case (Cons a ws)
  then show ?case by (cases i) auto
qed

lemma todo_producer:
  assumes "rank c pr < rank c (producer st)"
  shows "todo c (st\<lparr>producer := pr\<rparr>) < todo c st"
  using assms by (simp add: todo_def)

lemma progress_produce:
  assumes ki: "keys_inv c st"
    and pr: "producer st = CopyLoop ks \<or> producer st = DeleteLoop ks"
  shows "\<exists>st'. step c Produce st = Some st' \<and> todo c st' < todo c st \<and>
           failures st' = failures st \<and> ctx_err st' = ctx_err st"
proof -
  from pr show ?thesis
  proof
    assume cl: "producer st = CopyLoop ks"
    show ?thesis
    proof (cases ks)
      case Nil
      with cl show ?thesis
        by (auto simp: produce_def afterCopy_def closeJobs_def todo_def)
    next
      case (Cons p ps)
      with ki cl obtain srcInfo where "srcObjs (args c) p = Some srcInfo"
        by (auto simp: keys_inv_def)
      with cl Cons show ?thesis
        by (auto simp: produce_def afterCopy_def closeJobs_def todo_def)
    qed
  next
    assume dl: "producer st = DeleteLoop ks"
    then show ?thesis
      by (cases ks) (auto simp: produce_def closeJobs_def todo_def)
  qed
qed

lemma progress_worker:
  assumes i: "i < length (workers st)" and ne: "workers st ! i \<noteq> Exited"
    and q: "jobs st \<noteq> [] \<or> jobs_closed st"
  shows "\<exists>ev st'. step c ev st = Some st' \<and> todo c st' < todo c st \<and>
           failures st' = failures st \<and> ctx_err st' = ctx_err st"
proof (cases "workers st ! i")
  case Selecting
  show ?thesis
  proof (cases "jobs st")
    case Nil
    with q have cl: "jobs_closed st" by simp
    let ?st' = "st\<lparr>workers := (workers st)[i := Exited]\<rparr>"
    from Nil cl i Selecting have s: "step c (Recv i) st = Some ?st'" by (simp add: recv_def)
    from weight_update[OF i, of Exited] Selecting have "todo c ?st' < todo c st"
      by (simp add: todo_def)
    with s show ?thesis by (intro exI[of _ "Recv i"] exI[of _ ?st']) simp
  next
    case (Cons j js)
    let ?st' = "st\<lparr>jobs := js, workers := (workers st)[i := Executing j],
                      started := started st @ [j]\<rparr>"
    from Cons i Selecting have s: "step c (Recv i) st = Some ?st'" by (simp add: recv_def)
    from weight_update[OF i, of "Executing j"] Selecting Cons have "todo c ?st' < todo c st"
      by (simp add: todo_def)
    with s show ?thesis by (intro exI[of _ "Recv i"] exI[of _ ?st']) simp
  qed
next
  case (Executing j)
  let ?st' = "st\<lparr>workers := (workers st)[i := Selecting]\<rparr>"
  from i Executing have s: "step c (Return i None) st = Some ?st'" by (simp add: jobReturn_def)
  from weight_update[OF i, of Selecting] Executing have "todo c ?st' < todo c st"
    by (simp add: todo_def)
  with s show ?thesis by (intro exI[of _ "Return i None"] exI[of _ ?st']) simp
next
  case Exited
  with ne show ?thesis by simp
qed

lemma progress_submit:
  assumes qi: "queue_inv c st" and k: "1 \<le> concurrency (syncer c)"
    and pr: "producer st = CopySubmit j ks \<or> producer st = DeleteSubmit j ks"
  shows "\<exists>ev st'. step c ev st = Some st' \<and> todo c st' < todo c st \<and>
           failures st' = failures st \<and> ctx_err st' = ctx_err st"
proof (cases "ctx_err st = None")
  case False
  with pr show ?thesis
    by (intro exI[of _ SubmitDone])
       (auto simp: submitDone_def afterCopy_def closeJobs_def todo_def)
next
  case True
  show ?thesis
  proof (cases "length (jobs st) < jobs_cap")
    case True
    with pr show ?thesis
      by (intro exI[of _ SubmitSend]) (auto simp: submitSend_def todo_def)
  next
    case False
    then have ne: "jobs st \<noteq> []" by (auto simp: jobs_cap_def)
    from qi k have len: "0 < length (workers st)" by (simp add: queue_inv_def)
    have "workers st ! 0 \<noteq> Exited"
    proof
      assume "workers st ! 0 = Exited"
      with len have "Exited \<in> set (workers st)" by (metis nth_mem)
      with qi \<open>ctx_err st = None\<close> have "jobs st = []" by (simp add: queue_inv_def)
      with ne show False by simp
    qed
    from progress_worker[OF len this] ne show ?thesis by blast
  qed
qed

lemma progress_wait:
  assumes qi: "queue_inv c st" and pr: "producer st = Wait"
  shows "\<exists>ev st'. step c ev st = Some st' \<and> todo c st' < todo c st \<and>
           failures st' = failures st \<and> ctx_err st' = ctx_err st"
proof (cases "\<forall>w \<in> set (workers st). w = Exited")
  case True
  with pr show ?thesis
    by (intro exI[of _ Produce]) (auto simp: produce_def list_all_iff todo_def)
next
  case False
  then obtain i where i: "i < length (workers st)" "workers st ! i \<noteq> Exited"
    by (auto simp: in_set_conv_nth)
  from qi pr have "jobs_closed st" by (simp add: queue_inv_def)
  with progress_worker[OF i] show ?thesis by blast
qed

lemma progress_step:
  assumes qi: "queue_inv c st" and ki: "keys_inv c st" and k: "1 \<le> concurrency (syncer c)"
    and nr: "\<forall>r. producer st \<noteq> Returned r"
  shows "\<exists>ev st'. step c ev st = Some st' \<and> todo c st' < todo c st \<and>
           failures st' = failures st \<and> ctx_err st' = ctx_err st"
proof (cases "producer st")
  case (CopyLoop ks)
  with progress_produce[OF ki, of ks] show ?thesis by (metis step.simps(2))
next
  case (CopySubmit j ks)
  with progress_submit[OF qi k, of j ks] show ?thesis by blast
next
  case (DeleteLoop ks)
  with progress_produce[OF ki, of ks] show ?thesis by (metis step.simps(2))
next
  case (DeleteSubmit j ks)
  with progress_submit[OF qi k, of j ks] show ?thesis by blast
next
  case Wait
  with progress_wait[OF qi] show ?thesis by blast
next
  case (Returned r)
  with nr show ?thesis by simp
qed

lemma can_return_from:
  assumes k: "1 \<le> concurrency (syncer c)"
  shows "queue_inv c st \<Longrightarrow> keys_inv c st \<Longrightarrow>
         \<exists>evs st' r. run c evs st = Some st' \<and> producer st' = Returned r \<and>
            failures st' = failures st \<and> ctx_err st' = ctx_err st"
proof (induction "todo c st" arbitrary: st rule: less_induct)
  case less
  show ?case
  proof (cases "\<exists>r. producer st = Returned r")
    case True
    then obtain r where "producer st = Returned r" by blast
    then have "run c [] st = Some st \<and> producer st = Returned r \<and>
            failures st = failures st \<and> ctx_err st = ctx_err st" by simp
    then show ?thesis by blast
  next
    case False
    then have "\<forall>r. producer st \<noteq> Returned r" by simp
    from progress_step[OF less.prems k this] obtain ev st1 where
      s: "step c ev st = Some st1" and lt: "todo c st1 < todo c st"
      and same: "failures st1 = failures st" "ctx_err st1 = ctx_err st" by blast
    from queue_inv_step[OF less.prems(1) s] keys_inv_step[OF less.prems(2) s]
    have "queue_inv c st1" "keys_inv c st1" .
    from less.hyps[OF lt this] obtain evs st' r where
      r: "run c evs st1 = Some st'" "producer st' = Returned r"
         "failures st' = failures st1" "ctx_err st' = ctx_err st1" by blast
    from s r(1) have "run c (ev # evs) st = Some st'" by simp
    with r same show ?thesis by metis
  qed
qed

lemma keys_inv_run:
  assumes "range_order (srcObjs (args c)) srcRange" and "executeSync c srcRange evs = Some st"
  shows "keys_inv c st"
proof (rule run_invariant[where P="keys_inv c" and c=c])
  show "\<And>ev s s'. keys_inv c s \<Longrightarrow> step c ev s = Some s' \<Longrightarrow> keys_inv c s'"
    by (rule keys_inv_step)
  show "keys_inv c (start c srcRange)" using assms(1)
    by (simp add: keys_inv_def start_def range_order_def)
  show "run c evs (start c srcRange) = Some st" using assms(2) by (simp add: executeSync_def)
qed

lemma can_return:
  assumes "1 \<le> concurrency (syncer c)" and "range_order (srcObjs (args c)) srcRange"
    and "executeSync c srcRange evs = Some st"
  shows "\<exists>evs' st' r. run c evs' st = Some st' \<and> producer st' = Returned r \<and>
            failures st' = failures st \<and> ctx_err st' = ctx_err st"
  using can_return_from[OF assms(1) queue_inv_run[OF assms(3)] keys_inv_run[OF assms(2,3)]] .

subsection \<open>What a call returns\<close>

text \<open>
  Claim C4 as stated fails: the caller's context passes its deadline while the upload of
  \<open>a.txt\<close> is in flight, the upload then fails with its own error, and the call returns
  \<open>DeadlineExceeded\<close>, not the error of the first job to fail.
\<close>

theorem first_job_error_replaced_by_deadline:
  "map_option producer
     (executeSync (test_call False 1) [''a.txt'', ''b.txt'']
        [Produce, SubmitSend, Recv 0, CtxDone DeadlineExceeded,
         Return 0 (Some (Failure ''upload failed'')), Produce, Produce])
     = Some (Returned (Some DeadlineExceeded)) \<and>
   map_option failures
     (executeSync (test_call False 1) [''a.txt'', ''b.txt'']
        [Produce, SubmitSend, Recv 0, CtxDone DeadlineExceeded,
         Return 0 (Some (Failure ''upload failed'')), Produce, Produce])
     = Some [(\<lparr>path = ''a.txt'', fn = Upload ''/data'' ''bucket'' []\<rparr>, Failure ''upload failed'')] \<and>
   Some DeadlineExceeded \<noteq> Some (Failure ''upload failed'')"
  by (simp add: exec_defs)

text \<open>
  Claim C4, amended. A failure cancels the context. When the call returns, it returns
  one error or none: the error of the first job that failed, whatever failed later,
  unless the context has passed its deadline, in which case it returns
  \<open>DeadlineExceeded\<close>; with no failure and no cancellation it returns nil. From a
  cancelled state on, the context stays cancelled, the producer sends at most the one job
  whose send was pending, the workers start at most the jobs that were queued and that
  one, and a worker that has exited stays so. And the call can return: with at least one
  worker, from every state it can reach there is a continuation, with no further failure
  and no further cancellation, at the end of which it has returned.
\<close>

theorem first_error_or_deadline:
  assumes run: "executeSync c srcRange evs = Some st"
  shows "(failures st \<noteq> [] \<longrightarrow> ctx_err st \<noteq> None) \<and>
         (\<forall>r. producer st = Returned r \<longrightarrow>
            (\<forall>j e rest. failures st = (j, e) # rest \<and> ctx_err st \<noteq> Some DeadlineExceeded \<longrightarrow>
               r = Some e) \<and>
            (ctx_err st = Some DeadlineExceeded \<longrightarrow> r = Some DeadlineExceeded) \<and>
            (failures st = [] \<and> ctx_err st = None \<longrightarrow> r = None)) \<and>
         (\<forall>evs' st'. ctx_err st \<noteq> None \<and> run c evs' st = Some st' \<longrightarrow>
            ctx_err st' \<noteq> None \<and>
            length (submitted st') \<le> length (submitted st) + owed (producer st) \<and>
            length (started st') \<le> length (started st) + length (jobs st) + owed (producer st)) \<and>
         (\<forall>i evs' st'. i < length (workers st) \<and> workers st ! i = Exited \<and>
                       run c evs' st = Some st' \<longrightarrow> workers st' ! i = Exited) \<and>
         (1 \<le> concurrency (syncer c) \<and> range_order (srcObjs (args c)) srcRange \<longrightarrow>
            (\<exists>evs' st' r. run c evs' st = Some st' \<and> producer st' = Returned r \<and>
               failures st' = failures st \<and> ctx_err st' = ctx_err st))"
proof -
  from err_inv_run[OF run] have ei: "err_inv st" .
  then have a: "failures st \<noteq> [] \<longrightarrow> ctx_err st \<noteq> None" by (simp add: err_inv_def)
  have b: "\<forall>r. producer st = Returned r \<longrightarrow>
            (\<forall>j e rest. failures st = (j, e) # rest \<and> ctx_err st \<noteq> Some DeadlineExceeded \<longrightarrow>
               r = Some e) \<and>
            (ctx_err st = Some DeadlineExceeded \<longrightarrow> r = Some DeadlineExceeded) \<and>
            (failures st = [] \<and> ctx_err st = None \<longrightarrow> r = None)"
  proof (intro allI impI)
    fix r assume "producer st = Returned r"
    with ei have r: "r = result st" by (simp add: err_inv_def)
    show "(\<forall>j e rest. failures st = (j, e) # rest \<and> ctx_err st \<noteq> Some DeadlineExceeded \<longrightarrow>
               r = Some e) \<and>
            (ctx_err st = Some DeadlineExceeded \<longrightarrow> r = Some DeadlineExceeded) \<and>
            (failures st = [] \<and> ctx_err st = None \<longrightarrow> r = None)"
      unfolding r using result_cases[OF ei] by auto
  qed
  have c: "\<forall>evs' st'. ctx_err st \<noteq> None \<and> run c evs' st = Some st' \<longrightarrow>
            ctx_err st' \<noteq> None \<and>
            length (submitted st') \<le> length (submitted st) + owed (producer st) \<and>
            length (started st') \<le> length (started st) + length (jobs st) + owed (producer st)"
  proof (intro allI impI)
    fix evs' st' assume h: "ctx_err st \<noteq> None \<and> run c evs' st = Some st'"
    from cancelled_run[of st c evs' st'] h
    show "ctx_err st' \<noteq> None \<and>
            length (submitted st') \<le> length (submitted st) + owed (producer st) \<and>
            length (started st') \<le> length (started st) + length (jobs st) + owed (producer st)"
      by linarith
  qed
  have d: "\<forall>i evs' st'. i < length (workers st) \<and> workers st ! i = Exited \<and>
                       run c evs' st = Some st' \<longrightarrow> workers st' ! i = Exited"
    using exited_run by blast
  have e: "1 \<le> concurrency (syncer c) \<and> range_order (srcObjs (args c)) srcRange \<longrightarrow>
            (\<exists>evs' st' r. run c evs' st = Some st' \<and> producer st' = Returned r \<and>
               failures st' = failures st \<and> ctx_err st' = ctx_err st)"
    using can_return[OF _ _ run] by blast
  from a b c d e show ?thesis by blast
qed

theorem first_error_witness:
  "\<exists>st1 st.
     executeSync (test_call True 2) [''a.txt'', ''b.txt'']
        [Produce, SubmitSend, Produce, Produce, Produce, Produce, SubmitSend, Recv 0, Recv 1,
         Return 1 (Some (Failure ''delete failed''))] = Some st1 \<and>
     failures st1 \<noteq> [] \<and> ctx_err st1 \<noteq> None \<and>
     1 < length (workers st1) \<and> workers st1 ! 1 = Exited \<and>
     run (test_call True 2) [Return 0 (Some (Failure ''upload failed'')), Produce, Produce] st1 = Some st \<and>
     workers st ! 1 = Exited \<and>
     length (submitted st) \<le> length (submitted st1) + owed (producer st1) \<and>
     length (started st) \<le> length (started st1) + length (jobs st1) + owed (producer st1) \<and>
     executeSync (test_call True 2) [''a.txt'', ''b.txt'']
        [Produce, SubmitSend, Produce, Produce, Produce, Produce, SubmitSend, Recv 0, Recv 1,
         Return 1 (Some (Failure ''delete failed'')),
         Return 0 (Some (Failure ''upload failed'')), Produce, Produce] = Some st \<and>
     failures st = [(\<lparr>path = ''stale.txt'', fn = DeleteObject ''bucket'' []\<rparr>, Failure ''delete failed''),
                    (\<lparr>path = ''a.txt'', fn = Upload ''/data'' ''bucket'' []\<rparr>, Failure ''upload failed'')] \<and>
     ctx_err st \<noteq> Some DeadlineExceeded \<and>
     producer st = Returned (Some (Failure ''delete failed'')) \<and>
     1 \<le> concurrency (syncer (test_call True 2)) \<and>
     range_order (srcObjs (args (test_call True 2))) [''a.txt'', ''b.txt''] \<and>
     (\<exists>evs' st' r. run (test_call True 2) evs' st1 = Some st' \<and> producer st' = Returned r \<and>
        failures st' = failures st1 \<and> ctx_err st' = ctx_err st1)"
proof -
  have "\<exists>st1 st.
     executeSync (test_call True 2) [''a.txt'', ''b.txt'']
        [Produce, SubmitSend, Produce, Produce, Produce, Produce, SubmitSend, Recv 0, Recv 1,
         Return 1 (Some (Failure ''delete failed''))] = Some st1 \<and>
     failures st1 \<noteq> [] \<and>
     1 < length (workers st1) \<and> workers st1 ! 1 = Exited \<and>
     run (test_call True 2) [Return 0 (Some (Failure ''upload failed'')), Produce, Produce] st1 = Some st \<and>
     executeSync (test_call True 2) [''a.txt'', ''b.txt'']
        [Produce, SubmitSend, Produce, Produce, Produce, Produce, SubmitSend, Recv 0, Recv 1,
         Return 1 (Some (Failure ''delete failed'')),
         Return 0 (Some (Failure ''upload failed'')), Produce, Produce] = Some st \<and>
     failures st = [(\<lparr>path = ''stale.txt'', fn = DeleteObject ''bucket'' []\<rparr>, Failure ''delete failed''),
                    (\<lparr>path = ''a.txt'', fn = Upload ''/data'' ''bucket'' []\<rparr>, Failure ''upload failed'')] \<and>
     ctx_err st \<noteq> Some DeadlineExceeded \<and> (\<exists>r. producer st = Returned r)"
    by (simp add: exec_defs eval_nat_numeral)
  then obtain st1 st r where
    run1: "executeSync (test_call True 2) [''a.txt'', ''b.txt'']
        [Produce, SubmitSend, Produce, Produce, Produce, Produce, SubmitSend, Recv 0, Recv 1,
         Return 1 (Some (Failure ''delete failed''))] = Some st1"
    and f1: "failures st1 \<noteq> []"
    and w1: "1 < length (workers st1)" "workers st1 ! 1 = Exited"
    and run2: "run (test_call True 2) [Return 0 (Some (Failure ''upload failed'')), Produce, Produce] st1 = Some st"
    and run: "executeSync (test_call True 2) [''a.txt'', ''b.txt'']
        [Produce, SubmitSend, Produce, Produce, Produce, Produce, SubmitSend, Recv 0, Recv 1,
         Return 1 (Some (Failure ''delete failed'')),
         Return 0 (Some (Failure ''upload failed'')), Produce, Produce] = Some st"
    and f: "failures st = [(\<lparr>path = ''stale.txt'', fn = DeleteObject ''bucket'' []\<rparr>, Failure ''delete failed''),
                    (\<lparr>path = ''a.txt'', fn = Upload ''/data'' ''bucket'' []\<rparr>, Failure ''upload failed'')]"
    and nd: "ctx_err st \<noteq> Some DeadlineExceeded"
    and ret: "producer st = Returned r"
    by blast
  note t1 = first_error_or_deadline[OF run1]
  note t = first_error_or_deadline[OF run]
  from t1 f1 have c1: "ctx_err st1 \<noteq> None" by blast
  from t1 c1 run2 have bounds:
    "length (submitted st) \<le> length (submitted st1) + owed (producer st1)"
    "length (started st) \<le> length (started st1) + length (jobs st1) + owed (producer st1)"
    by blast+
  from t1 w1 run2 have ex: "workers st ! 1 = Exited" by blast
  from t ret f nd have "r = Some (Failure ''delete failed'')" by blast
  with ret have ret': "producer st = Returned (Some (Failure ''delete failed''))" by (simp only:)
  have k: "1 \<le> concurrency (syncer (test_call True 2))" by (simp add: test_call_def)
  note ro = test_range_src[of True 2]
  from t1 k ro have prog:
    "\<exists>evs' st' r. run (test_call True 2) evs' st1 = Some st' \<and> producer st' = Returned r \<and>
        failures st' = failures st1 \<and> ctx_err st' = ctx_err st1"
    by blast
  show ?thesis
    apply (rule exI[of _ st1])
    apply (rule exI[of _ st])
    apply (intro conjI)
                apply (rule run1)
               apply (rule f1)
              apply (rule c1)
             apply (rule w1(1))
            apply (rule w1(2))
           apply (rule run2)
          apply (rule ex)
         apply (rule bounds(1))
        apply (rule bounds(2))
       apply (rule run)
      apply (rule f)
     apply (rule nd)
       apply (rule ret')
      apply (rule k)
     apply (rule ro)
    apply (rule prog)
    done
qed

lemma returned_nil:
  assumes run: "executeSync c srcRange evs = Some st"
    and ret: "producer st = Returned r"
    and cancelled: "ctx_err st = Some Canceled"
    and nofail: "failures st = []"
  shows "r = None \<and> errChan st = []"
proof -
  from err_inv_run[OF run] have ei: "err_inv st" .
  with ret have "r = result st" by (simp add: err_inv_def)
  with result_cases[OF ei] cancelled nofail have r: "r = None" by simp
  from ei nofail have e: "errChan st = []" by (simp add: err_inv_def)
  from r e show ?thesis by simp
qed

text \<open>
  Claim C10 as stated fails: the caller cancels while the download of \<open>key.txt\<close> is in
  flight and no executor has returned an error yet; the download then returns an error,
  which the worker sends, and Sync returns that error, not nil.
\<close>

theorem download_error_after_cancel:
  "snd (Sync test_syncer TempDir ''s3://bucket'' ''/tmp/dst'') = ExecuteSync (args download_call) \<and>
   map_option failures
     (executeSync download_call [''key.txt''] [Produce, SubmitSend, Recv 0, CtxDone Canceled])
     = Some [] \<and>
   map_option ctx_err
     (executeSync download_call [''key.txt''] [Produce, SubmitSend, Recv 0, CtxDone Canceled])
     = Some (Some Canceled) \<and>
   Sync_run test_syncer TempDir ''s3://bucket'' ''/tmp/dst'' [''key.txt''] []
     [Produce, SubmitSend, Recv 0, CtxDone Canceled,
      Return 0 (Some (Errorf ''download'' Canceled)), Produce, Produce]
     = Some \<lparr>performed = [ListObjects ''bucket'' [], Walk ''/tmp/dst''],
             executed = [\<lparr>path = ''key.txt'', fn = Download ''bucket'' [] ''/tmp/dst''\<rparr>],
             returned = Some (Errorf ''download'' Canceled)\<rparr>"
  by (simp add: exec_defs Sync_run_def Sync_def syncS3ToLocal_def parseS3URI_def HasPrefix_def
        TrimPrefix_def ListS3Objects_def MockS3Client_def addObject_def relPathOf_def
        filtered_out_def ToString_def ToInt64_def ToTime_def WalkLocal_def walkFn_def TempDir_def
        Let_def)

text \<open>
  Claim C10, amended. When the context is cancelled (\<open>Canceled\<close>) and no executor has
  returned an error during the whole call, a call that has returned has returned nil
  with \<^verbatim>\<open>errChan\<close> empty, and so has Sync, which returns what \<^verbatim>\<open>executeSync\<close>
  returns, even though planned jobs were skipped; and with at least one worker such a
  return can be reached from every state in which no executor has failed so far.
\<close>

theorem cancelled_without_failure_returns_nil:
  assumes run: "executeSync c srcRange evs = Some st"
    and cancelled: "ctx_err st = Some Canceled"
    and nofail: "failures st = []"
  shows "(\<forall>r. producer st = Returned r \<longrightarrow>
            r = None \<and> errChan st = [] \<and>
            (\<forall>s fs src dst io.
               Sync s fs src dst = (io, ExecuteSync (args c)) \<and> syncer c = s \<longrightarrow>
               Sync_run s fs src dst srcRange (dstRange c) evs =
                 Some \<lparr>performed = io, executed = started st, returned = None\<rparr>)) \<and>
         (1 \<le> concurrency (syncer c) \<and> range_order (srcObjs (args c)) srcRange \<longrightarrow>
            (\<exists>evs' st'. run c evs' st = Some st' \<and> producer st' = Returned None \<and>
               ctx_err st' = Some Canceled \<and> failures st' = []))"
proof -
  have a: "r = None \<and> errChan st = [] \<and>
            (\<forall>s fs src dst io.
               Sync s fs src dst = (io, ExecuteSync (args c)) \<and> syncer c = s \<longrightarrow>
               Sync_run s fs src dst srcRange (dstRange c) evs =
                 Some \<lparr>performed = io, executed = started st, returned = None\<rparr>)"
    if ret: "producer st = Returned r" for r
  proof -
    from returned_nil[OF run ret cancelled nofail] have r: "r = None" and e: "errChan st = []"
      by simp_all
    have "Sync_run s fs src dst srcRange (dstRange c) evs =
              Some \<lparr>performed = io, executed = started st, returned = None\<rparr>"
      if "Sync s fs src dst = (io, ExecuteSync (args c))" "syncer c = s" for s fs src dst io
    proof -
      have "\<lparr>syncer = s, args = args c, dstRange = dstRange c\<rparr> = c" using that(2) by simp
      with that(1) run ret r show ?thesis by (simp add: Sync_run_def)
    qed
    with r e show ?thesis by blast
  qed
  have b: "\<exists>evs' st'. run c evs' st = Some st' \<and> producer st' = Returned None \<and>
               ctx_err st' = Some Canceled \<and> failures st' = []"
    if k: "1 \<le> concurrency (syncer c)" and ro: "range_order (srcObjs (args c)) srcRange"
  proof -
    from can_return[OF k ro run] obtain evs' st' r where
      r: "run c evs' st = Some st'" "producer st' = Returned r"
         "failures st' = failures st" "ctx_err st' = ctx_err st" by blast
    from run r(1) have run': "executeSync c srcRange (evs @ evs') = Some st'"
      by (simp add: executeSync_def run_append)
    from r(3,4) cancelled nofail have c': "ctx_err st' = Some Canceled" and f': "failures st' = []"
      by simp_all
    from returned_nil[OF run' r(2) c' f'] have "r = None" by simp
    with r c' f' show ?thesis by blast
  qed
  from a b show ?thesis by blast
qed

theorem cancelled_without_failure_witness:
  "\<exists>st. executeSync download_call [''key.txt''] [CtxDone Canceled, Produce, Done 0, Produce] = Some st \<and>
        producer st = Returned None \<and> ctx_err st = Some Canceled \<and> failures st = [] \<and>
        errChan st = [] \<and> submitted st = [] \<and>
        copy_rule (srcObjs (args download_call)) (dstObjs (args download_call)) ''key.txt'' \<and>
        Sync test_syncer TempDir ''s3://bucket'' ''/tmp/dst'' =
          ([ListObjects ''bucket'' [], Walk ''/tmp/dst''], ExecuteSync (args download_call)) \<and>
        syncer download_call = test_syncer \<and>
        Sync_run test_syncer TempDir ''s3://bucket'' ''/tmp/dst'' [''key.txt''] (dstRange download_call)
          [CtxDone Canceled, Produce, Done 0, Produce]
          = Some \<lparr>performed = [ListObjects ''bucket'' [], Walk ''/tmp/dst''],
                  executed = started st, returned = None\<rparr> \<and>
        1 \<le> concurrency (syncer download_call) \<and>
        range_order (srcObjs (args download_call)) [''key.txt''] \<and>
        (\<exists>st0. executeSync download_call [''key.txt''] [Produce, CtxDone Canceled] = Some st0 \<and>
               ctx_err st0 = Some Canceled \<and> failures st0 = [] \<and>
               (\<exists>evs' st'. run download_call evs' st0 = Some st' \<and> producer st' = Returned None \<and>
                  ctx_err st' = Some Canceled \<and> failures st' = []))"
proof -
  have "\<exists>st. executeSync download_call [''key.txt''] [CtxDone Canceled, Produce, Done 0, Produce] = Some st \<and>
        producer st = Returned None \<and> ctx_err st = Some Canceled \<and> failures st = [] \<and>
        submitted st = []"
    by (simp add: exec_defs)
  then obtain st where
    run: "executeSync download_call [''key.txt''] [CtxDone Canceled, Produce, Done 0, Produce] = Some st"
    and st: "producer st = Returned None" "ctx_err st = Some Canceled" "failures st = []"
       "submitted st = []"
    by blast
  have sy: "Sync test_syncer TempDir ''s3://bucket'' ''/tmp/dst'' =
          ([ListObjects ''bucket'' [], Walk ''/tmp/dst''], ExecuteSync (args download_call))"
    by (simp add: download_call_def test_syncer_def Sync_def syncS3ToLocal_def parseS3URI_def
        HasPrefix_def TrimPrefix_def ListS3Objects_def MockS3Client_def addObject_def relPathOf_def
        filtered_out_def ToString_def ToInt64_def ToTime_def WalkLocal_def walkFn_def TempDir_def
        Let_def)
  have s: "syncer download_call = test_syncer" by (simp add: download_call_def)
  have cr: "copy_rule (srcObjs (args download_call)) (dstObjs (args download_call)) ''key.txt''"
    by (simp add: copy_rule_def download_call_def)
  have k: "1 \<le> concurrency (syncer download_call)"
    by (simp add: download_call_def test_syncer_def)
  have ro: "range_order (srcObjs (args download_call)) [''key.txt'']"
    by (auto simp: range_order_def download_call_def)
  have "\<exists>st0. executeSync download_call [''key.txt''] [Produce, CtxDone Canceled] = Some st0 \<and>
               ctx_err st0 = Some Canceled \<and> failures st0 = []"
    by (simp add: exec_defs)
  then obtain st0 where
    run0: "executeSync download_call [''key.txt''] [Produce, CtxDone Canceled] = Some st0"
    and st0: "ctx_err st0 = Some Canceled" "failures st0 = []"
    by blast
  from cancelled_without_failure_returns_nil[OF run0 st0] k ro
  have "\<exists>evs' st'. run download_call evs' st0 = Some st' \<and> producer st' = Returned None \<and>
                  ctx_err st' = Some Canceled \<and> failures st' = []"
    by blast
  with run0 st0 have prog:
    "\<exists>st0. executeSync download_call [''key.txt''] [Produce, CtxDone Canceled] = Some st0 \<and>
               ctx_err st0 = Some Canceled \<and> failures st0 = [] \<and>
               (\<exists>evs' st'. run download_call evs' st0 = Some st' \<and> producer st' = Returned None \<and>
                  ctx_err st' = Some Canceled \<and> failures st' = [])"
    by blast
  from cancelled_without_failure_returns_nil[OF run st(2,3)] st(1) sy s
  have sr: "Sync_run test_syncer TempDir ''s3://bucket'' ''/tmp/dst'' [''key.txt''] (dstRange download_call)
          [CtxDone Canceled, Produce, Done 0, Produce]
          = Some \<lparr>performed = [ListObjects ''bucket'' [], Walk ''/tmp/dst''],
                  executed = started st, returned = None\<rparr>"
    and ec: "errChan st = []"
    by blast+
  from run st sy s cr sr ec k ro prog show ?thesis by blast
qed

subsection \<open>A second run\<close>

lemma no_copy_when_in_sync:
  assumes "\<And>p. p \<in> set ks \<Longrightarrow> \<not> wantsCopy c p"
  shows "copyJobs c ks = []"
  using assms by (simp add: copyJobs_def filter_empty_conv)

lemma no_delete_when_in_sync:
  assumes "\<And>p. p \<in> set ks \<Longrightarrow> \<not> wantsDelete c p"
  shows "deleteJobs c ks = []"
  using assms by (simp add: deleteJobs_def filter_empty_conv)

text \<open>
  What the hypotheses of the next theorem ask of the first run is what a run that
  returns without cancellation, with at least one worker, has done: every job of its plan
  has been handed to an executor, and the run has returned nil.
\<close>

lemma completed_run_started_plan:
  assumes k: "1 \<le> concurrency (syncer c)"
    and run: "executeSync c srcRange evs = Some st"
    and ret: "producer st = Returned r"
    and nc: "ctx_err st = None"
  shows "started st = plan c srcRange \<and> r = None"
proof -
  from queue_inv_run[OF run] have qi: "queue_inv c st" .
  from qi k have "workers st \<noteq> []" by (auto simp: queue_inv_def)
  then obtain w where w: "w \<in> set (workers st)" by (cases "workers st") auto
  with qi ret have "w = Exited" by (simp add: queue_inv_def)
  with w qi nc have "jobs st = []" by (auto simp: queue_inv_def)
  with qi have "submitted st = started st" by (simp add: queue_inv_def)
  with plan_submitted_when_returned[OF run nc ret] have p: "started st = plan c srcRange" by simp
  from err_inv_run[OF run] have ei: "err_inv st" .
  with nc have "failures st = []" by (auto simp: err_inv_def)
  with result_cases[OF ei] nc ei ret have "r = None" by (simp add: err_inv_def)
  with p show ?thesis by simp
qed

text \<open>
  Claim C8. Let \<open>S\<close> and \<open>D\<close> be the snapshots of a first run and \<open>D'\<close> the destination
  as the second run finds it: every entry the first run had to copy is there with the
  source's size and a modification time not earlier than the source's, with deletion
  enabled every entry it had to delete is gone, and nothing else has changed. Then the
  second run, on \<open>S\<close> and \<open>D'\<close>, submits no job in any state it can reach.
\<close>

theorem second_run_submits_nothing:
  assumes copied: "\<forall>p. copy_rule S D p \<longrightarrow>
                     (\<exists>s d. S p = Some s \<and> D' p = Some d \<and> Size d = Size s \<and> ModTime s \<le> ModTime d)"
    and deleted: "del \<longrightarrow> (\<forall>p. D p \<noteq> None \<and> S p = None \<longrightarrow> D' p = None)"
    and unchanged: "\<forall>p. \<not> copy_rule S D p \<and> \<not> (del \<and> D p \<noteq> None \<and> S p = None) \<longrightarrow> D' p = D p"
    and second: "srcObjs (args c) = S" "dstObjs (args c) = D'" "deleteDestination (syncer c) = del"
    and ro: "range_order D' (dstRange c)"
    and run: "executeSync c srcRange evs = Some st"
  shows "submitted st = []"
proof -
  have nocopy: "\<not> wantsCopy c p" for p
  proof
    assume w: "wantsCopy c p"
    then obtain s where s: "S p = Some s" and sc: "shouldCopy s (D' p)"
      using second by (auto simp: wantsCopy_def split: option.splits)
    show False
    proof (cases "copy_rule S D p")
      case True
      with copied s obtain d where "D' p = Some d" "Size d = Size s" "ModTime s \<le> ModTime d"
        by fastforce
      with sc show False by (simp add: shouldCopy_def After_def)
    next
      case False
      with s unchanged have "D' p = D p" by auto
      with sc s have "copy_rule S D p"
        by (auto simp: copy_rule_def shouldCopy_def split: option.splits if_splits)
      with False show False by simp
    qed
  qed
  have nodelete: "\<not> wantsDelete c p" if del: "del" and p: "p \<in> set (dstRange c)" for p
  proof
    assume "wantsDelete c p"
    then have s: "S p = None" using second by (simp add: wantsDelete_def)
    from p ro have d': "D' p \<noteq> None" by (simp add: range_order_def)
    from s have ncr: "\<not> copy_rule S D p" by (simp add: copy_rule_def)
    show False
    proof (cases "D p = None")
      case True
      with ncr unchanged have "D' p = D p" by auto
      with True d' show False by simp
    next
      case False
      with deleted del s have "D' p = None" by auto
      with d' show False by simp
    qed
  qed
  have "plan c srcRange = []"
    using no_copy_when_in_sync[of srcRange c] nocopy no_delete_when_in_sync[of "dstRange c" c] nodelete second(3)
    by (auto simp: plan_def deletePhase_def)
  with submitted_subset_plan[OF run] show ?thesis by simp
qed

theorem second_run_witness:
  "\<exists>st.
     (\<forall>p. copy_rule (srcObjs test_args) (dstObjs test_args) p \<longrightarrow>
          (\<exists>s d. srcObjs test_args p = Some s \<and> dstObjs (args second_call) p = Some d \<and>
                 Size d = Size s \<and> ModTime s \<le> ModTime d)) \<and>
     (\<forall>p. dstObjs test_args p \<noteq> None \<and> srcObjs test_args p = None \<longrightarrow>
          dstObjs (args second_call) p = None) \<and>
     (\<forall>p. \<not> copy_rule (srcObjs test_args) (dstObjs test_args) p \<and>
          \<not> (True \<and> dstObjs test_args p \<noteq> None \<and> srcObjs test_args p = None) \<longrightarrow>
          dstObjs (args second_call) p = dstObjs test_args p) \<and>
     copy_rule (srcObjs test_args) (dstObjs test_args) ''a.txt'' \<and>
     srcObjs (args second_call) = srcObjs test_args \<and>
     deleteDestination (syncer second_call) = True \<and>
     range_order (dstObjs (args second_call)) (dstRange second_call) \<and>
     executeSync second_call [''b.txt'', ''a.txt'']
        [Produce, Produce, Produce, Produce, Produce, Produce, Recv 0, Produce] = Some st \<and>
     producer st = Returned None \<and> submitted st = []"
proof -
  have copied: "\<forall>p. copy_rule (srcObjs test_args) (dstObjs test_args) p \<longrightarrow>
        (\<exists>s d. srcObjs test_args p = Some s \<and> dstObjs (args second_call) p = Some d \<and>
               Size d = Size s \<and> ModTime s \<le> ModTime d)"
    by (auto simp: copy_rule_def test_args_def second_call_def After_def split: if_splits)
  have deleted: "True \<longrightarrow> (\<forall>p. dstObjs test_args p \<noteq> None \<and> srcObjs test_args p = None \<longrightarrow>
        dstObjs (args second_call) p = None)"
    by (auto simp: test_args_def second_call_def split: if_splits)
  have unchanged: "\<forall>p. \<not> copy_rule (srcObjs test_args) (dstObjs test_args) p \<and>
        \<not> (True \<and> dstObjs test_args p \<noteq> None \<and> srcObjs test_args p = None) \<longrightarrow>
        dstObjs (args second_call) p = dstObjs test_args p"
    by (auto simp: copy_rule_def test_args_def second_call_def After_def split: if_splits)
  have a: "copy_rule (srcObjs test_args) (dstObjs test_args) ''a.txt''"
    by (simp add: copy_rule_def test_args_def)
  have s: "srcObjs (args second_call) = srcObjs test_args" by (simp add: second_call_def)
  have d: "deleteDestination (syncer second_call) = True" by (simp add: second_call_def test_call_def)
  have ro: "range_order (dstObjs (args second_call)) (dstRange second_call)"
    by (auto simp: range_order_def second_call_def test_args_def)
  have "\<exists>st. executeSync second_call [''b.txt'', ''a.txt'']
           [Produce, Produce, Produce, Produce, Produce, Produce, Recv 0, Produce] = Some st \<and>
         producer st = Returned None"
    by (simp add: exec_defs)
  then obtain st where run: "executeSync second_call [''b.txt'', ''a.txt'']
           [Produce, Produce, Produce, Produce, Produce, Produce, Recv 0, Produce] = Some st"
    and ret: "producer st = Returned None" by blast
  from second_run_submits_nothing[OF copied deleted unchanged s refl d ro run]
  have "submitted st = []" .
  with copied deleted unchanged a s d ro run ret show ?thesis by blast
qed

end
